theory Spec2Isabelle
  imports Main
begin

section \<open>Values, errors and the Point class\<close>

text \<open>
  The program is a single JavaScript module, \<^verbatim>\<open>src/index.js\<close>. Coordinates are JavaScript
  numbers that hold integers; they are modelled as \<^typ>\<open>int\<close>. The values a pixel query can
  produce are \<^verbatim>\<open>false\<close>, \<^verbatim>\<open>undefined\<close> (a missing palette entry) and colour strings;
  \<open>truthy\<close> is JavaScript's truthiness on them and \<open>js_or\<close> is the operator \<^verbatim>\<open>||\<close>.
  Reading a property of \<^verbatim>\<open>undefined\<close> throws a \<^verbatim>\<open>TypeError\<close>, which is a value of the
  model.
\<close>

datatype jsval = JUndefined | JBool bool | JStr string

fun truthy :: "jsval \<Rightarrow> bool" where
  "truthy JUndefined = False"
| "truthy (JBool b) = b"
| "truthy (JStr s) = (s \<noteq> [])"

definition js_or :: "jsval \<Rightarrow> jsval \<Rightarrow> jsval" where
  "js_or a b = (if truthy a then a else b)"

datatype error = TypeError

text \<open>
  A \<^verbatim>\<open>Point\<close> object is immutable once constructed, so it is modelled as a value that
  carries its identity: \<open>ident\<close> is the allocation number of the object, and two model
  values are equal exactly when they are the same object. \<open>Point_class\<close> is the mutable
  state behind the class: the static field \<^verbatim>\<open>Point.points\<close> (an object keyed by \<^verbatim>\<open>x\<close>
  whose entries are objects keyed by \<^verbatim>\<open>y\<close>) and the number of objects allocated so far.
\<close>

record Point =
  ident :: nat
  Point_x :: int
  Point_y :: int

record Point_class =
  points :: "int \<Rightarrow> (int \<Rightarrow> Point option) option"
  allocated :: nat

definition Point_class0 :: Point_class where
  "Point_class0 = \<lparr>points = Map.empty, allocated = 0\<rparr>"

text \<open>
  \<^verbatim>\<open>new Point(x, y)\<close> (lines 18-31): \<^verbatim>\<open>super(...args)\<close> always allocates \<^verbatim>\<open>this\<close>; the
  constructor then returns the cached instance when \<^verbatim>\<open>Point.points[x][y]\<close> holds one and
  registers \<^verbatim>\<open>this\<close> otherwise.
\<close>

definition new_Point :: "int \<Rightarrow> int \<Rightarrow> Point_class \<Rightarrow> Point \<times> Point_class" where
  "new_Point a b s =
    (let this = \<lparr>ident = allocated s, Point_x = a, Point_y = b\<rparr>;
         s1 = s\<lparr>allocated := Suc (allocated s)\<rparr>
     in case points s1 a of
          Some row \<Rightarrow>
            (case row b of
               Some cached \<Rightarrow> (cached, s1)
             | None \<Rightarrow> (this, s1\<lparr>points := (points s1)(a \<mapsto> row(b \<mapsto> this))\<rparr>))
        | None \<Rightarrow> (this, s1\<lparr>points := (points s1)(a \<mapsto> [b \<mapsto> this])\<rparr>))"

text \<open>\<^verbatim>\<open>Point.from({x, y})\<close> and \<^verbatim>\<open>add(point)\<close>; both take any object with fields x and y.\<close>

definition Point_from :: "int \<times> int \<Rightarrow> Point_class \<Rightarrow> Point \<times> Point_class" where
  "Point_from xy s = new_Point (fst xy) (snd xy) s"

definition Point_add :: "Point \<Rightarrow> int \<times> int \<Rightarrow> Point_class \<Rightarrow> Point \<times> Point_class" where
  "Point_add this d s = new_Point (Point_x this + fst d) (Point_y this + snd d) s"

text \<open>Any sequence of constructor calls, used to reach an arbitrary state of the cache.\<close>

fun construct_all :: "(int \<times> int) list \<Rightarrow> Point_class \<Rightarrow> Point_class" where
  "construct_all [] s = s"
| "construct_all (c # cs) s = construct_all cs (snd (new_Point (fst c) (snd c) s))"

definition coords :: "Point \<Rightarrow> int \<times> int" where
  "coords p = (Point_x p, Point_y p)"

definition lookup :: "Point_class \<Rightarrow> int \<Rightarrow> int \<Rightarrow> Point option" where
  "lookup s a b = (case points s a of None \<Rightarrow> None | Some row \<Rightarrow> row b)"

text \<open>
  The cache is well formed when every entry is filed under its own coordinates; a Point
  is interned in a state when the cache returns that very object for its coordinates.
\<close>

definition wf_cache :: "Point_class \<Rightarrow> bool" where
  "wf_cache s = (\<forall>a b p. lookup s a b = Some p \<longrightarrow> coords p = (a, b))"

definition interned :: "Point_class \<Rightarrow> Point \<Rightarrow> bool" where
  "interned s p = (lookup s (Point_x p) (Point_y p) = Some p)"

definition extends :: "Point_class \<Rightarrow> Point_class \<Rightarrow> bool" where
  "extends s t = (\<forall>a b p. lookup s a b = Some p \<longrightarrow> lookup t a b = Some p)"

section \<open>Library functions the module imports\<close>

text \<open>
  \<^verbatim>\<open>range\<close> is \<^verbatim>\<open>lodash.range\<close>, always called with two arguments. The library's
  \<^verbatim>\<open>createRange\<close> then takes \<^verbatim>\<open>step = start < end ? 1 : -1\<close> and its \<^verbatim>\<open>baseRange\<close>
  returns \<^verbatim>\<open>max(ceil((end - start) / step), 0)\<close> numbers \<^verbatim>\<open>start, start + step, ...\<close>:
  an ascending half-open range when \<^verbatim>\<open>start < end\<close>, a descending one when
  \<^verbatim>\<open>start > end\<close>, and nothing when they are equal.
\<close>

fun baseRange :: "int \<Rightarrow> int \<Rightarrow> nat \<Rightarrow> int list" where
  "baseRange start step 0 = []"
| "baseRange start step (Suc n) = start # baseRange (start + step) step n"

definition lodash_range :: "int \<Rightarrow> int \<Rightarrow> int list" where
  "lodash_range start stop =
     (let step = (if start < stop then 1 else - 1)
      in baseRange start step (nat (max ((stop - start) div step) 0)))"

text \<open>
  \<^verbatim>\<open>Array.prototype.map\<close> and \<^verbatim>\<open>flatMap\<close> (package \<^verbatim>\<open>@quarterto/flatmap\<close>: the
  concatenation of the callback's results, in order) for a callback that runs in a state
  \<open>'s\<close>; \<open>flatMap_err\<close> and \<open>forEach\<close> are the same loops for a callback that can throw.
\<close>

fun Array_map :: "('a \<Rightarrow> 's \<Rightarrow> 'b \<times> 's) \<Rightarrow> 'a list \<Rightarrow> 's \<Rightarrow> 'b list \<times> 's" where
  "Array_map f [] s = ([], s)"
| "Array_map f (v # vs) s =
     (case f v s of (r, s1) \<Rightarrow> (case Array_map f vs s1 of (rs, s2) \<Rightarrow> (r # rs, s2)))"

fun flatMap :: "'a list \<Rightarrow> ('a \<Rightarrow> 's \<Rightarrow> 'b list \<times> 's) \<Rightarrow> 's \<Rightarrow> 'b list \<times> 's" where
  "flatMap [] f s = ([], s)"
| "flatMap (v # vs) f s =
     (case f v s of (r, s1) \<Rightarrow> (case flatMap vs f s1 of (rs, s2) \<Rightarrow> (r @ rs, s2)))"

fun flatMap_err ::
  "'a list \<Rightarrow> ('a \<Rightarrow> 's \<Rightarrow> error + 'b list \<times> 's) \<Rightarrow> 's \<Rightarrow> error + 'b list \<times> 's" where
  "flatMap_err [] f s = Inr ([], s)"
| "flatMap_err (v # vs) f s =
     (case f v s of
        Inl e \<Rightarrow> Inl e
      | Inr (r, s1) \<Rightarrow>
          (case flatMap_err vs f s1 of Inl e \<Rightarrow> Inl e | Inr (rs, s2) \<Rightarrow> Inr (r @ rs, s2)))"

fun forEach :: "'a list \<Rightarrow> ('a \<Rightarrow> 'w \<Rightarrow> error + 'w) \<Rightarrow> 'w \<Rightarrow> error + 'w" where
  "forEach [] f w = Inr w"
| "forEach (v # vs) f w = (case f v w of Inl e \<Rightarrow> Inl e | Inr w1 \<Rightarrow> forEach vs f w1)"

text \<open>
  \<^verbatim>\<open>flatMapUniq\<close> (package \<^verbatim>\<open>@quarterto/flat-map-uniq\<close>) is \<^verbatim>\<open>flatMap\<close> followed by the
  removal of repeated elements, compared by identity, the first occurrence kept.
\<close>

fun uniq_into :: "'a list \<Rightarrow> 'a list \<Rightarrow> 'a list" where
  "uniq_into seen [] = seen"
| "uniq_into seen (v # vs) = uniq_into (if v \<in> set seen then seen else seen @ [v]) vs"

definition uniq :: "'a list \<Rightarrow> 'a list" where
  "uniq xs = uniq_into [] xs"

definition flatMapUniq ::
  "'a list \<Rightarrow> ('a \<Rightarrow> 's \<Rightarrow> 'b list \<times> 's) \<Rightarrow> 's \<Rightarrow> 'b list \<times> 's" where
  "flatMapUniq xs f s = (case flatMap xs f s of (rs, s1) \<Rightarrow> (uniq rs, s1))"

definition flatMapUniq_err ::
  "'a list \<Rightarrow> ('a \<Rightarrow> 's \<Rightarrow> error + 'b list \<times> 's) \<Rightarrow> 's \<Rightarrow> error + 'b list \<times> 's" where
  "flatMapUniq_err xs f s =
     (case flatMap_err xs f s of Inl e \<Rightarrow> Inl e | Inr (rs, s1) \<Rightarrow> Inr (uniq rs, s1))"

section \<open>Regions\<close>

text \<open>
  The three region classes, lines 49-71. \<open>Bounding_pixels\<close> is the method \<^verbatim>\<open>pixels()\<close>;
  \<open>children_pixels\<close> is \<^verbatim>\<open>flatMap(children, child => child.pixels())\<close>, written as a
  mutual recursion.
\<close>

datatype bounding =
    BoundingRect Point Point
  | BoundingGroup "bounding list"
  | NullBoundingBox

fun Bounding_pixels :: "bounding \<Rightarrow> Point_class \<Rightarrow> Point list \<times> Point_class"
  and children_pixels :: "bounding list \<Rightarrow> Point_class \<Rightarrow> Point list \<times> Point_class"
where
  "Bounding_pixels (BoundingRect orig opp) s =
     flatMap (lodash_range (Point_x orig) (Point_x opp))
       (\<lambda>a. Array_map (\<lambda>b. Point_from (a, b)) (lodash_range (Point_y orig) (Point_y opp))) s"
| "Bounding_pixels (BoundingGroup children) s =
     (case children_pixels children s of (rs, s1) \<Rightarrow> (uniq rs, s1))"
| "Bounding_pixels NullBoundingBox s = ([], s)"
| "children_pixels [] s = ([], s)"
| "children_pixels (child # rest) s =
     (case Bounding_pixels child s of
        (r, s1) \<Rightarrow> (case children_pixels rest s1 of (rs, s2) \<Rightarrow> (r @ rs, s2)))"

section \<open>Sprites\<close>

text \<open>
  A Sprite (lines 73-121) has the fields \<^verbatim>\<open>_origin\<close> and \<^verbatim>\<open>palette\<close> of its constructor and
  the instance fields \<^verbatim>\<open>pixels\<close>, \<^verbatim>\<open>stale\<close> and \<^verbatim>\<open>lastBoundingBox\<close>. The second
  initialiser of \<^verbatim>\<open>lastBoundingBox\<close> (line 88) overwrites the first, so a new Sprite holds
  \<^verbatim>\<open>null\<close> there (\<open>None\<close>). The bitmap is \<^verbatim>\<open>[]\<close> in \<^verbatim>\<open>Sprite\<close> itself and is set by a
  subclass such as \<^verbatim>\<open>Circle\<close>; the palette is an object keyed by palette index.
\<close>

record Sprite =
  origin :: Point
  palette :: "nat \<Rightarrow> jsval option"
  pixels :: "nat list list"
  stale :: bool
  lastBoundingBox :: "bounding option"

definition new_Sprite :: "Point \<Rightarrow> (nat \<Rightarrow> jsval option) \<Rightarrow> nat list list \<Rightarrow> Sprite" where
  "new_Sprite orig pal bitmap =
     \<lparr>origin = orig, palette = pal, pixels = bitmap, stale = True, lastBoundingBox = None\<rparr>"

definition palette_get :: "(nat \<Rightarrow> jsval option) \<Rightarrow> nat \<Rightarrow> jsval" where
  "palette_get pal k = (case pal k of None \<Rightarrow> JUndefined | Some c \<Rightarrow> c)"

text \<open>
  The getter \<^verbatim>\<open>boundingBox\<close> (lines 78-86). \<^verbatim>\<open>this.pixels[0].length\<close> throws when the
  bitmap has no row, before \<^verbatim>\<open>add\<close> is called.
\<close>

definition Sprite_boundingBox :: "Sprite \<Rightarrow> Point_class \<Rightarrow> error + bounding \<times> Point_class" where
  "Sprite_boundingBox this s =
     (case pixels this of
        [] \<Rightarrow> Inl TypeError
      | row0 # _ \<Rightarrow>
          (case Point_add (origin this) (int (length row0), int (length (pixels this))) s of
             (opp, s1) \<Rightarrow> Inr (BoundingRect (origin this) opp, s1)))"

definition Sprite_changedPixels :: "Sprite \<Rightarrow> Point_class \<Rightarrow> error + Point list \<times> Point_class" where
  "Sprite_changedPixels this s =
     (case lastBoundingBox this of
        Some lastBB \<Rightarrow>
          (case Sprite_boundingBox this s of
             Inl e \<Rightarrow> Inl e
           | Inr (bb, s1) \<Rightarrow> Inr (Bounding_pixels (BoundingGroup [lastBB, bb]) s1))
      | None \<Rightarrow>
          (case Sprite_boundingBox this s of
             Inl e \<Rightarrow> Inl e
           | Inr (bb, s1) \<Rightarrow> Inr (Bounding_pixels bb s1)))"

text \<open>
  \<^verbatim>\<open>getPixel(x, y)\<close> (lines 99-106). The guard compares \<^verbatim>\<open>rx\<close> with the length of the first
  row and \<^verbatim>\<open>ry\<close> with the number of rows; the lookup is \<^verbatim>\<open>this.pixels[rx][ry]\<close>. An index
  past the end of an array reads \<^verbatim>\<open>undefined\<close>: \<^verbatim>\<open>undefined[ry]\<close> throws, and
  \<^verbatim>\<open>palette[undefined]\<close> is \<^verbatim>\<open>undefined\<close>.
\<close>

definition Sprite_getPixel :: "Sprite \<Rightarrow> int \<Rightarrow> int \<Rightarrow> error + jsval" where
  "Sprite_getPixel this a b =
     (let rx = a - Point_x (origin this);
          ry = b - Point_y (origin this)
      in if rx < 0 \<or> ry < 0 then Inr (JBool False)
         else (case pixels this of
                 [] \<Rightarrow> Inl TypeError
               | row0 # _ \<Rightarrow>
                   if rx \<ge> int (length row0) \<or> ry \<ge> int (length (pixels this))
                   then Inr (JBool False)
                   else if nat rx \<ge> length (pixels this) then Inl TypeError
                   else (let row = pixels this ! nat rx
                         in if nat ry \<ge> length row then Inr JUndefined
                            else Inr (palette_get (palette this) (row ! nat ry)))))"

text \<open>The setter of \<^verbatim>\<open>origin\<close> (lines 112-116), statement by statement, and \<^verbatim>\<open>move\<close>.\<close>

definition Sprite_set_origin :: "Sprite \<Rightarrow> Point \<Rightarrow> Point_class \<Rightarrow> error + Sprite \<times> Point_class" where
  "Sprite_set_origin this newOrigin s =
     (let this1 = this\<lparr>stale := True\<rparr>
      in case Sprite_boundingBox this1 s of
           Inl e \<Rightarrow> Inl e
         | Inr (bb, s1) \<Rightarrow>
             (let this2 = this1\<lparr>lastBoundingBox := Some bb\<rparr>;
                  this3 = this2\<lparr>origin := newOrigin\<rparr>
              in Inr (this3, s1)))"

definition Sprite_move :: "Sprite \<Rightarrow> Point \<Rightarrow> Point_class \<Rightarrow> error + Sprite \<times> Point_class" where
  "Sprite_move this newOrigin s = Sprite_set_origin this newOrigin s"

section \<open>Layers and the canvas\<close>

text \<open>
  A layer holds references to its objects, which \<^verbatim>\<open>getPixel\<close> mutates, so the objects live
  in a store indexed by reference. An object is a Sprite or a Background (lines 166-180),
  whose \<^verbatim>\<open>stale\<close> always reads \<^verbatim>\<open>false\<close> and whose setter does nothing.
\<close>

datatype drawable = SpriteObj Sprite | BackgroundObj jsval

type_synonym store = "nat \<Rightarrow> drawable"

fun obj_stale :: "drawable \<Rightarrow> bool" where
  "obj_stale (SpriteObj sp) = stale sp"
| "obj_stale (BackgroundObj c) = False"

fun obj_set_stale :: "drawable \<Rightarrow> bool \<Rightarrow> drawable" where
  "obj_set_stale (SpriteObj sp) v = SpriteObj (sp\<lparr>stale := v\<rparr>)"
| "obj_set_stale (BackgroundObj c) v = BackgroundObj c"

fun obj_changedPixels :: "drawable \<Rightarrow> Point_class \<Rightarrow> error + Point list \<times> Point_class" where
  "obj_changedPixels (SpriteObj sp) s = Sprite_changedPixels sp s"
| "obj_changedPixels (BackgroundObj c) s = Inr ([], s)"

fun obj_getPixel :: "drawable \<Rightarrow> int \<Rightarrow> int \<Rightarrow> error + jsval" where
  "obj_getPixel (SpriteObj sp) a b = Sprite_getPixel sp a b"
| "obj_getPixel (BackgroundObj c) a b = Inr c"

record Layer =
  objects :: "nat list"
  blendMode :: jsval

definition Layer_changedPixels :: "Layer \<Rightarrow> store \<Rightarrow> Point_class \<Rightarrow> error + Point list \<times> Point_class" where
  "Layer_changedPixels this st s =
     flatMapUniq_err (filter (\<lambda>object. obj_stale (st object)) (objects this))
       (\<lambda>object. obj_changedPixels (st object)) s"

text \<open>The loop of \<^verbatim>\<open>Layer.getPixel\<close> (lines 147-157) over the remaining objects.\<close>

fun getPixel_loop :: "nat list \<Rightarrow> int \<Rightarrow> int \<Rightarrow> store \<Rightarrow> error + jsval \<times> store" where
  "getPixel_loop [] a b st = Inr (JBool False, st)"
| "getPixel_loop (object # rest) a b st =
     (case obj_getPixel (st object) a b of
        Inl e \<Rightarrow> Inl e
      | Inr pixel \<Rightarrow>
          if truthy pixel
          then Inr (pixel, st(object := obj_set_stale (st object) False))
          else getPixel_loop rest a b st)"

definition Layer_getPixel :: "Layer \<Rightarrow> int \<Rightarrow> int \<Rightarrow> store \<Rightarrow> error + jsval \<times> store" where
  "Layer_getPixel this a b st = getPixel_loop (objects this) a b st"

text \<open>
  The 2D context is modelled by the list of operations performed on it: the two property
  assignments and \<^verbatim>\<open>fillRect\<close>.
\<close>

datatype ctx_op =
    SetGlobalCompositeOperation jsval
  | SetFillStyle jsval
  | FillRect int int int int

definition Layer_drawPixel ::
  "Layer \<Rightarrow> Point \<Rightarrow> store \<times> ctx_op list \<Rightarrow> error + store \<times> ctx_op list" where
  "Layer_drawPixel this pixel w =
     (case w of (st, ctx) \<Rightarrow>
        (let ctx1 = ctx @ [SetGlobalCompositeOperation (js_or (blendMode this) (JStr ''source-over''))]
         in case Layer_getPixel this (Point_x pixel) (Point_y pixel) st of
              Inl e \<Rightarrow> Inl e
            | Inr (c, st1) \<Rightarrow>
                Inr (st1, ctx1 @ [SetFillStyle (js_or c (JStr ''transparent'')),
                                  FillRect (Point_x pixel) (Point_y pixel) 1 1])))"

record Canvas =
  layers :: "Layer list"

definition Canvas_changedPixels :: "Canvas \<Rightarrow> store \<Rightarrow> Point_class \<Rightarrow> error + Point list \<times> Point_class" where
  "Canvas_changedPixels this st s =
     flatMapUniq_err (layers this) (\<lambda>layer. Layer_changedPixels layer st) s"

definition Canvas_drawPixel ::
  "Canvas \<Rightarrow> Point \<Rightarrow> store \<times> ctx_op list \<Rightarrow> error + store \<times> ctx_op list" where
  "Canvas_drawPixel this pixel w = forEach (layers this) (\<lambda>layer. Layer_drawPixel layer pixel) w"

definition Canvas_draw ::
  "Canvas \<Rightarrow> store \<Rightarrow> Point_class \<Rightarrow> ctx_op list \<Rightarrow> error + store \<times> Point_class \<times> ctx_op list" where
  "Canvas_draw this st s ctx =
     (case Canvas_changedPixels this st s of
        Inl e \<Rightarrow> Inl e
      | Inr (changed, s1) \<Rightarrow>
          (case forEach changed (\<lambda>pixel. Canvas_drawPixel this pixel) (st, ctx) of
             Inl e \<Rightarrow> Inl e
           | Inr (st1, ctx1) \<Rightarrow> Inr (st1, s1, ctx1)))"

section \<open>Vocabulary of the statements\<close>

text \<open>
  \<open>Bounding_coords\<close> lists the coordinates \<^verbatim>\<open>pixels()\<close> visits, in order, without the
  Point objects. A computation \<open>produces\<close> a list of coordinates when, from any well-formed
  cache, it returns interned Points with exactly these coordinates and leaves a well-formed
  cache that still holds every Point it held before.
\<close>

definition rect_coords :: "int \<Rightarrow> int \<Rightarrow> int \<Rightarrow> int \<Rightarrow> (int \<times> int) list" where
  "rect_coords a a' b b' =
     concat (map (\<lambda>x. map (\<lambda>y. (x, y)) (lodash_range b b')) (lodash_range a a'))"

fun Bounding_coords :: "bounding \<Rightarrow> (int \<times> int) list"
  and children_coords :: "bounding list \<Rightarrow> (int \<times> int) list"
where
  "Bounding_coords (BoundingRect orig opp) =
     rect_coords (Point_x orig) (Point_x opp) (Point_y orig) (Point_y opp)"
| "Bounding_coords (BoundingGroup children) = uniq (children_coords children)"
| "Bounding_coords NullBoundingBox = []"
| "children_coords [] = []"
| "children_coords (child # rest) = Bounding_coords child @ children_coords rest"

definition produces :: "(Point_class \<Rightarrow> Point list \<times> Point_class) \<Rightarrow> (int \<times> int) list \<Rightarrow> bool" where
  "produces f cs = (\<forall>s. wf_cache s \<longrightarrow>
     (case f s of (ps, t) \<Rightarrow>
        wf_cache t \<and> extends s t \<and> map coords ps = cs \<and> (\<forall>p \<in> set ps. interned t p)))"

text \<open>The half-open rectangle of width \<open>w\<close> and height \<open>h\<close> whose corner is \<open>orig\<close>.\<close>

definition box_at :: "Point \<Rightarrow> nat \<Rightarrow> nat \<Rightarrow> (int \<times> int) set" where
  "box_at orig w h =
     {Point_x orig..<Point_x orig + int w} \<times> {Point_y orig..<Point_y orig + int h}"

text \<open>
  The same for computations that can throw: \<open>produces_err\<close> also says that the computation
  returns. \<open>changed_points\<close> is the set of Points a call returned (none when it threw);
  \<open>Sprite_changed_coords\<close> lists the coordinates \<^verbatim>\<open>changedPixels()\<close> of a Sprite visits;
  \<open>has_rows\<close> holds of every Background and of a Sprite whose bitmap has at least one row.
\<close>

definition produces_err ::
  "(Point_class \<Rightarrow> error + Point list \<times> Point_class) \<Rightarrow> (int \<times> int) list \<Rightarrow> bool" where
  "produces_err f cs = (\<forall>s. wf_cache s \<longrightarrow>
     (\<exists>ps t. f s = Inr (ps, t) \<and>
        wf_cache t \<and> extends s t \<and> map coords ps = cs \<and> (\<forall>p \<in> set ps. interned t p)))"


definition Sprite_changed_coords :: "Sprite \<Rightarrow> (int \<times> int) list" where
  "Sprite_changed_coords this =
     (case pixels this of
        [] \<Rightarrow> []
      | row0 # _ \<Rightarrow>
          (let box = rect_coords (Point_x (origin this)) (Point_x (origin this) + int (length row0))
                       (Point_y (origin this)) (Point_y (origin this) + int (length (pixels this)))
           in case lastBoundingBox this of
                None \<Rightarrow> box
              | Some lastBB \<Rightarrow> uniq (Bounding_coords lastBB @ box)))"

fun obj_changed_coords :: "drawable \<Rightarrow> (int \<times> int) list" where
  "obj_changed_coords (SpriteObj sp) = Sprite_changed_coords sp"
| "obj_changed_coords (BackgroundObj c) = []"

fun has_rows :: "drawable \<Rightarrow> bool" where
  "has_rows (SpriteObj sp) = (pixels sp \<noteq> [])"
| "has_rows (BackgroundObj c) = True"

text \<open>
  The scene of the last claim: a canvas of a background layer (blend mode \<^verbatim>\<open>false\<close>, as in
  the module's own scene) under a layer with one Sprite and the blend mode \<^verbatim>\<open>'lighter'\<close>.
  \<open>two_layer_ops\<close> are the operations one changed pixel costs on the context, the
  background layer's first; \<open>pixel_value\<close> is the value \<^verbatim>\<open>getPixel\<close> of the Sprite returns
  there. \<open>stale_variant\<close> holds of the objects that are the Sprite up to its \<^verbatim>\<open>stale\<close> flag.
\<close>

definition pixel_value :: "Sprite \<Rightarrow> Point \<Rightarrow> jsval" where
  "pixel_value sp p =
     (case Sprite_getPixel sp (Point_x p) (Point_y p) of Inl e \<Rightarrow> JUndefined | Inr v \<Rightarrow> v)"

definition two_layer_ops :: "jsval \<Rightarrow> Sprite \<Rightarrow> Point \<Rightarrow> ctx_op list" where
  "two_layer_ops color sp p =
     [SetGlobalCompositeOperation (JStr ''source-over''),
      SetFillStyle (js_or color (JStr ''transparent'')),
      FillRect (Point_x p) (Point_y p) 1 1,
      SetGlobalCompositeOperation (JStr ''lighter''),
      SetFillStyle (js_or (pixel_value sp p) (JStr ''transparent'')),
      FillRect (Point_x p) (Point_y p) 1 1]"

definition stale_variant :: "Sprite \<Rightarrow> drawable \<Rightarrow> bool" where
  "stale_variant sp d = (\<exists>f. d = SpriteObj (sp\<lparr>stale := f\<rparr>))"

definition two_layers :: "nat \<Rightarrow> nat \<Rightarrow> Canvas" where
  "two_layers bg spr =
     \<lparr>layers = [\<lparr>objects = [bg], blendMode = JBool False\<rparr>,
                \<lparr>objects = [spr], blendMode = JStr ''lighter''\<rparr>]\<rparr>"

section \<open>Example scenes\<close>




text \<open>
  The bitmap of \<^verbatim>\<open>Circle\<close> (lines 124-135) and a scene of the kind the module builds: the
  Points (95,95) and (96,96) have been constructed, a Circle stands at (95,95), and the
  store holds a black Background everywhere but at reference 1, which holds the Sprite.
\<close>

definition Circle_pixels :: "nat list list" where
  "Circle_pixels =
     [[0,0,0,0,1,1,0,0,0,0],
      [0,0,1,1,1,1,1,1,0,0],
      [0,1,1,1,1,1,1,1,1,0],
      [0,1,1,1,1,1,1,1,1,0],
      [1,1,1,1,1,1,1,1,1,1],
      [1,1,1,1,1,1,1,1,1,1],
      [0,1,1,1,1,1,1,1,1,0],
      [0,1,1,1,1,1,1,1,1,0],
      [0,0,1,1,1,1,1,1,0,0],
      [0,0,0,0,1,1,0,0,0,0]]"

definition circle_state :: Point_class where
  "circle_state = construct_all [(95, 95), (96, 96)] Point_class0"

definition circle_sprite :: Sprite where
  "circle_sprite =
     new_Sprite \<lparr>ident = 0, Point_x = 95, Point_y = 95\<rparr>
       [0 \<mapsto> JStr ''#000'', 1 \<mapsto> JStr ''#00FF00''] Circle_pixels"

definition circle_store :: "Sprite \<Rightarrow> store" where
  "circle_store sp = (\<lambda>_. BackgroundObj (JStr ''#000''))(1 := SpriteObj sp)"

section \<open>Proofs\<close>

lemma fst_new_Point:
  "fst (new_Point a b s) =
     (case lookup s a b of Some p \<Rightarrow> p | None \<Rightarrow> \<lparr>ident = allocated s, Point_x = a, Point_y = b\<rparr>)"
  by (simp add: new_Point_def lookup_def Let_def split: option.splits)

lemma lookup_new_Point:
  "lookup (snd (new_Point a b s)) a' b' =
     (if a' = a \<and> b' = b then Some (fst (new_Point a b s)) else lookup s a' b')"
  by (auto simp: new_Point_def lookup_def Let_def split: option.splits)

lemma wf_cache0: "wf_cache Point_class0"
  by (simp add: wf_cache_def lookup_def Point_class0_def)

lemma wf_new_Point: "wf_cache s \<Longrightarrow> wf_cache (snd (new_Point a b s))"
  unfolding wf_cache_def
  by (auto simp: lookup_new_Point fst_new_Point coords_def split: option.splits if_splits)

subsection \<open>The range of lodash\<close>

lemma baseRange_up: "baseRange start 1 n = [start..start + int n - 1]"
proof (induction n arbitrary: start)
  case 0 then show ?case by simp
next
  case (Suc n)
  have "[start..start + int (Suc n) - 1] = start # [start + 1..start + 1 + int n - 1]"
    by (subst upto_rec1) (simp_all add: algebra_simps)
  with Suc show ?case by simp
qed

lemma baseRange_down: "baseRange start (- 1) n = rev [start - int n + 1..start]"
proof (induction n arbitrary: start)
  case 0 then show ?case by simp
next
  case (Suc n)
  have "[start - int (Suc n) + 1..start] = [start - 1 - int n + 1..start - 1] @ [start]"
    by (subst upto_rec2) (simp_all add: algebra_simps)
  with Suc[of "start - 1"] show ?case by simp
qed

lemma lodash_range_up: "start \<le> stop \<Longrightarrow> lodash_range start stop = [start..stop - 1]"
  by (cases "start < stop") (simp_all add: lodash_range_def baseRange_up baseRange_down)

lemma lodash_range_down: "stop \<le> start \<Longrightarrow> lodash_range start stop = rev [stop + 1..start]"
  by (simp add: lodash_range_def baseRange_down)

lemma set_lodash_range:
  "set (lodash_range start stop) = (if start \<le> stop then {start..<stop} else {stop<..start})"
  by (auto simp: lodash_range_up lodash_range_down)

lemma distinct_lodash_range: "distinct (lodash_range start stop)"
  by (cases "start \<le> stop") (simp_all add: lodash_range_up lodash_range_down)

subsection \<open>Removal of duplicates\<close>

lemma set_uniq_into: "set (uniq_into seen xs) = set seen \<union> set xs"
  by (induction xs arbitrary: seen) auto

lemma distinct_uniq_into: "distinct seen \<Longrightarrow> distinct (uniq_into seen xs)"
  by (induction xs arbitrary: seen) auto

lemma set_uniq: "set (uniq xs) = set xs"
  by (simp add: uniq_def set_uniq_into)

lemma distinct_uniq: "distinct (uniq xs)"
  by (simp add: uniq_def distinct_uniq_into)

lemma map_uniq_into:
  "inj_on f (set seen \<union> set xs) \<Longrightarrow> map f (uniq_into seen xs) = uniq_into (map f seen) (map f xs)"
proof (induction xs arbitrary: seen)
  case Nil then show ?case by simp
next
  case (Cons v vs)
  let ?seen' = "if v \<in> set seen then seen else seen @ [v]"
  have inj: "inj_on f (set ?seen' \<union> set vs)"
    using Cons.prems by (auto simp: inj_on_def)
  have mem: "f v \<in> set (map f seen) \<longleftrightarrow> v \<in> set seen"
    using Cons.prems by (auto simp: inj_on_def)
  show ?case
    using Cons.IH[OF inj] mem by auto
qed

lemma map_uniq: "inj_on f (set xs) \<Longrightarrow> map f (uniq xs) = uniq (map f xs)"
  using map_uniq_into[of f "[]" xs] by (simp add: uniq_def)

lemma uniq_into_distinct: "distinct (seen @ xs) \<Longrightarrow> uniq_into seen xs = seen @ xs"
  by (induction xs arbitrary: seen) auto

lemma uniq_distinct: "distinct xs \<Longrightarrow> uniq xs = xs"
  using uniq_into_distinct[of "[]" xs] by (simp add: uniq_def)

lemma uniq_into_absorb: "set xs \<subseteq> set seen \<Longrightarrow> uniq_into seen xs = seen"
  by (induction xs arbitrary: seen) auto

lemma uniq_into_append: "uniq_into seen (xs @ ys) = uniq_into (uniq_into seen xs) ys"
  by (induction xs arbitrary: seen) auto

lemma uniq_twice: "uniq (xs @ xs) = uniq xs"
  by (simp add: uniq_def uniq_into_append uniq_into_absorb set_uniq_into)

subsection \<open>The cache of Points\<close>

lemma extends_refl: "extends s s"
  by (simp add: extends_def)

lemma extends_trans: "extends s t \<Longrightarrow> extends t u \<Longrightarrow> extends s u"
  by (simp add: extends_def)

lemma extends_new_Point: "extends s (snd (new_Point a b s))"
  by (simp add: extends_def lookup_new_Point fst_new_Point)

lemma coords_new_Point: "wf_cache s \<Longrightarrow> coords (fst (new_Point a b s)) = (a, b)"
  by (auto simp: fst_new_Point wf_cache_def coords_def split: option.splits)

lemma interned_new_Point: "wf_cache s \<Longrightarrow> interned (snd (new_Point a b s)) (fst (new_Point a b s))"
  using coords_new_Point[of s a b] by (simp add: interned_def lookup_new_Point coords_def)

lemma interned_extends: "interned s p \<Longrightarrow> extends s t \<Longrightarrow> interned t p"
  by (simp add: interned_def extends_def)

lemma interned_eq: "interned s p \<Longrightarrow> interned s q \<Longrightarrow> coords p = coords q \<Longrightarrow> p = q"
  unfolding interned_def coords_def by (metis option.inject prod.inject)

lemma interned_inj_on: "\<forall>p \<in> set ps. interned s p \<Longrightarrow> inj_on coords (set ps)"
  by (auto simp: inj_on_def intro: interned_eq)

lemma lookup_construct_all:
  "lookup s a b = Some p \<Longrightarrow> lookup (construct_all cs s) a b = Some p"
proof (induction cs arbitrary: s)
  case Nil then show ?case by simp
next
  case (Cons c cs)
  have "lookup (snd (new_Point (fst c) (snd c) s)) a b = Some p"
    using Cons.prems extends_new_Point[of s "fst c" "snd c"] by (simp add: extends_def)
  then show ?case using Cons.IH by simp
qed

lemma wf_construct_all: "wf_cache s \<Longrightarrow> wf_cache (construct_all cs s)"
  by (induction cs arbitrary: s) (simp_all add: wf_new_Point)

subsection \<open>Computations that produce interned Points\<close>

lemma producesI:
  assumes "\<And>s ps t. wf_cache s \<Longrightarrow> f s = (ps, t) \<Longrightarrow>
     wf_cache t \<and> extends s t \<and> map coords ps = cs \<and> (\<forall>p \<in> set ps. interned t p)"
  shows "produces f cs"
  unfolding produces_def using assms by (auto split: prod.splits)

lemma producesD:
  assumes "produces f cs" "wf_cache s" "f s = (ps, t)"
  shows "wf_cache t" "extends s t" "map coords ps = cs" "\<And>p. p \<in> set ps \<Longrightarrow> interned t p"
  using assms unfolding produces_def by (auto split: prod.splits)

lemma produces_nil: "produces (\<lambda>s. ([], s)) []"
  by (simp add: produces_def extends_refl)

lemma produces_step:
  assumes f: "produces f cs" and g: "produces g ds"
    and wf: "wf_cache s" and fr: "f s = (r, s1)" and gr: "g s1 = (rs, s2)"
  shows "wf_cache s2 \<and> extends s s2 \<and> map coords (r @ rs) = cs @ ds \<and>
         (\<forall>p \<in> set (r @ rs). interned s2 p)"
proof -
  note F = producesD[OF f wf fr]
  note G = producesD[OF g F(1) gr]
  show ?thesis
    using F G by (auto intro: extends_trans interned_extends)
qed

lemma produces_point: "produces (\<lambda>s. case Point_from (a, b) s of (p, t) \<Rightarrow> ([p], t)) [(a, b)]"
proof (rule producesI)
  fix s ps t assume wf: "wf_cache s"
    and run: "(case Point_from (a, b) s of (p, t) \<Rightarrow> ([p], t)) = (ps, t)"
  then have ps: "ps = [fst (new_Point a b s)]" and t: "t = snd (new_Point a b s)"
    by (auto simp: Point_from_def split: prod.splits)
  show "wf_cache t \<and> extends s t \<and> map coords ps = [(a, b)] \<and> (\<forall>p \<in> set ps. interned t p)"
    using wf ps t by (simp add: wf_new_Point extends_new_Point coords_new_Point interned_new_Point)
qed

lemma produces_Array_map:
  "produces (Array_map (\<lambda>b. Point_from (a, b)) bs) (map (\<lambda>b. (a, b)) bs)"
proof (induction bs)
  case Nil show ?case by (simp add: produces_def extends_refl)
next
  case (Cons b bs)
  show ?case
  proof (rule producesI)
    fix s ps t assume wf: "wf_cache s"
      and run: "Array_map (\<lambda>b. Point_from (a, b)) (b # bs) s = (ps, t)"
    obtain p s1 where pr: "Point_from (a, b) s = (p, s1)" by (cases "Point_from (a, b) s")
    obtain rs s2 where rr: "Array_map (\<lambda>b. Point_from (a, b)) bs s1 = (rs, s2)"
      by (cases "Array_map (\<lambda>b. Point_from (a, b)) bs s1")
    from run pr rr have ps: "ps = [p] @ rs" and t: "t = s2" by simp_all
    have "(case Point_from (a, b) s of (p, t) \<Rightarrow> ([p], t)) = ([p], s1)" using pr by simp
    from produces_step[OF produces_point Cons wf this rr]
    show "wf_cache t \<and> extends s t \<and> map coords ps = map (\<lambda>b. (a, b)) (b # bs) \<and>
          (\<forall>p \<in> set ps. interned t p)"
      unfolding ps t by simp
  qed
qed

lemma produces_flatMap:
  assumes "\<And>v. v \<in> set vs \<Longrightarrow> produces (f v) (c v)"
  shows "produces (flatMap vs f) (concat (map c vs))"
  using assms
proof (induction vs)
  case Nil show ?case by (simp add: produces_def extends_refl)
next
  case (Cons v vs)
  have fv: "produces (f v) (c v)" and rest: "produces (flatMap vs f) (concat (map c vs))"
    using Cons by simp_all
  show ?case
  proof (rule producesI)
    fix s ps t assume wf: "wf_cache s" and run: "flatMap (v # vs) f s = (ps, t)"
    obtain r s1 where fr: "f v s = (r, s1)" by (cases "f v s")
    obtain rs s2 where rr: "flatMap vs f s1 = (rs, s2)" by (cases "flatMap vs f s1")
    from run fr rr have ps: "ps = r @ rs" and t: "t = s2" by simp_all
    from produces_step[OF fv rest wf fr rr]
    show "wf_cache t \<and> extends s t \<and> map coords ps = concat (map c (v # vs)) \<and>
          (\<forall>p \<in> set ps. interned t p)"
      unfolding ps t by simp
  qed
qed

lemma produces_uniq:
  assumes f: "produces f cs"
  shows "produces (\<lambda>s. case f s of (rs, s1) \<Rightarrow> (uniq rs, s1)) (uniq cs)"
proof (rule producesI)
  fix s ps t assume wf: "wf_cache s" and run: "(case f s of (rs, s1) \<Rightarrow> (uniq rs, s1)) = (ps, t)"
  obtain rs where fr: "f s = (rs, t)" and ps: "ps = uniq rs"
    using run by (auto split: prod.splits)
  note F = producesD[OF f wf fr]
  have "inj_on coords (set rs)" using F(4) by (auto intro: interned_inj_on)
  then have "map coords (uniq rs) = uniq (map coords rs)" by (rule map_uniq)
  then show "wf_cache t \<and> extends s t \<and> map coords ps = uniq cs \<and> (\<forall>p \<in> set ps. interned t p)"
    using F ps by (simp add: set_uniq)
qed

lemma produces_Bounding_pixels:
  "produces (Bounding_pixels r) (Bounding_coords r)"
  "produces (children_pixels rs) (children_coords rs)"
proof (induction r and rs rule: Bounding_coords_children_coords.induct)
  case (1 orig opp)
  have "Bounding_pixels (BoundingRect orig opp) =
     flatMap (lodash_range (Point_x orig) (Point_x opp))
       (\<lambda>a. Array_map (\<lambda>b. Point_from (a, b)) (lodash_range (Point_y orig) (Point_y opp)))"
    by (rule ext) simp
  moreover have "produces (flatMap (lodash_range (Point_x orig) (Point_x opp))
       (\<lambda>a. Array_map (\<lambda>b. Point_from (a, b)) (lodash_range (Point_y orig) (Point_y opp))))
     (concat (map (\<lambda>a. map (\<lambda>b. (a, b)) (lodash_range (Point_y orig) (Point_y opp)))
                  (lodash_range (Point_x orig) (Point_x opp))))"
    by (rule produces_flatMap) (rule produces_Array_map)
  ultimately show ?case by (simp only: Bounding_coords.simps rect_coords_def)
next
  case (2 children)
  have "Bounding_pixels (BoundingGroup children) =
      (\<lambda>s. case children_pixels children s of (rs, s1) \<Rightarrow> (uniq rs, s1))"
    by (rule ext) simp
  then show ?case using produces_uniq[OF 2] by (simp only: Bounding_coords.simps)
next
  case 3
  show ?case by (simp add: produces_def extends_refl)
next
  case 4
  show ?case by (simp add: produces_def extends_refl)
next
  case (5 child rest)
  show ?case
  proof (rule producesI)
    fix s ps t assume wf: "wf_cache s" and run: "children_pixels (child # rest) s = (ps, t)"
    obtain r s1 where fr: "Bounding_pixels child s = (r, s1)" by (cases "Bounding_pixels child s")
    obtain rs s2 where rr: "children_pixels rest s1 = (rs, s2)" by (cases "children_pixels rest s1")
    from run fr rr have ps: "ps = r @ rs" and t: "t = s2" by simp_all
    from produces_step[OF 5 wf fr rr]
    show "wf_cache t \<and> extends s t \<and> map coords ps = children_coords (child # rest) \<and>
          (\<forall>p \<in> set ps. interned t p)"
      unfolding ps t by simp
  qed
qed

subsection \<open>Regions\<close>

text \<open>The mutual recursion is the call of \<^verbatim>\<open>flatMapUniq\<close> in the source.\<close>

lemma children_pixels_flatMap: "children_pixels children s = flatMap children Bounding_pixels s"
  by (induction children arbitrary: s) simp_all

lemma BoundingGroup_pixels_flatMapUniq:
  "Bounding_pixels (BoundingGroup children) s = flatMapUniq children Bounding_pixels s"
  by (simp add: flatMapUniq_def children_pixels_flatMap)

lemma Bounding_pixels_facts:
  assumes "wf_cache s"
  shows "wf_cache (snd (Bounding_pixels r s))"
    and "extends s (snd (Bounding_pixels r s))"
    and "map coords (fst (Bounding_pixels r s)) = Bounding_coords r"
    and "\<And>p. p \<in> set (fst (Bounding_pixels r s)) \<Longrightarrow> interned (snd (Bounding_pixels r s)) p"
  using producesD[OF produces_Bounding_pixels(1) assms, of r "fst (Bounding_pixels r s)" "snd (Bounding_pixels r s)"]
  by simp_all

lemma concat_map_product:
  "concat (map (\<lambda>a. map (\<lambda>b. (a, b)) ys) xs) = List.product xs ys"
  by (induction xs) simp_all

lemma rect_coords_product:
  "rect_coords a a' b b' = List.product (lodash_range a a') (lodash_range b b')"
  by (simp add: rect_coords_def concat_map_product)

lemma set_Bounding_coords_rect:
  "set (Bounding_coords (BoundingRect orig opp)) =
     set (lodash_range (Point_x orig) (Point_x opp)) \<times> set (lodash_range (Point_y orig) (Point_y opp))"
  by (simp add: rect_coords_product)

lemma distinct_Bounding_coords: "distinct (Bounding_coords r)"
proof (cases r)
  case (BoundingRect orig opp)
  then show ?thesis
    by (simp add: rect_coords_product distinct_product distinct_lodash_range)
next
  case (BoundingGroup children)
  then show ?thesis by (simp add: distinct_uniq)
next
  case NullBoundingBox
  then show ?thesis by simp
qed

lemma set_children_coords: "set (children_coords rs) = (\<Union>r \<in> set rs. set (Bounding_coords r))"
  by (induction rs) simp_all

lemma distinct_Bounding_pixels:
  assumes "wf_cache s"
  shows "distinct (fst (Bounding_pixels r s))"
proof -
  have "distinct (map coords (fst (Bounding_pixels r s)))"
    using Bounding_pixels_facts(3)[OF assms, where r = "r"] distinct_Bounding_coords[of r] by simp
  then show ?thesis by (simp add: distinct_map)
qed

text \<open>A region whose Points are already interned returns those very objects.\<close>

lemma Bounding_pixels_subset_interned:
  assumes wf: "wf_cache t" and ps: "\<forall>p \<in> set ps. interned t p"
    and cover: "set (Bounding_coords r) \<subseteq> coords ` set ps"
  shows "set (fst (Bounding_pixels r t)) \<subseteq> set ps"
proof
  fix q assume q: "q \<in> set (fst (Bounding_pixels r t))"
  let ?u = "snd (Bounding_pixels r t)"
  note F = Bounding_pixels_facts[OF wf, where r = "r"]
  have "coords q \<in> set (Bounding_coords r)"
    using q F(3) by (metis imageI set_map)
  then obtain p where p: "p \<in> set ps" and eq: "coords p = coords q"
    using cover by auto
  have "interned ?u p" using ps p F(2) by (auto intro: interned_extends)
  moreover have "interned ?u q" using q F(4) by simp
  ultimately have "p = q" using eq by (rule interned_eq)
  then show "q \<in> set ps" using p by simp
qed

lemma Bounding_pixels_superset_interned:
  assumes wf: "wf_cache t" and ps: "\<forall>p \<in> set ps. interned t p"
    and cover: "coords ` set ps \<subseteq> set (Bounding_coords r)"
  shows "set ps \<subseteq> set (fst (Bounding_pixels r t))"
proof
  fix p assume p: "p \<in> set ps"
  let ?u = "snd (Bounding_pixels r t)"
  note F = Bounding_pixels_facts[OF wf, where r = "r"]
  have "coords p \<in> set (map coords (fst (Bounding_pixels r t)))"
    using p cover F(3) by auto
  then obtain q where q: "q \<in> set (fst (Bounding_pixels r t))" and eq: "coords p = coords q"
    by auto
  have "interned ?u p" using ps p F(2) by (auto intro: interned_extends)
  moreover have "interned ?u q" using q F(4) by simp
  ultimately have "p = q" using eq by (rule interned_eq)
  then show "p \<in> set (fst (Bounding_pixels r t))" using q by simp
qed

subsection \<open>Sprites\<close>

lemma Sprite_boundingBox_rows:
  assumes "pixels this = row0 # rest"
  shows "Sprite_boundingBox this s =
     Inr (BoundingRect (origin this)
            (fst (new_Point (Point_x (origin this) + int (length row0))
                            (Point_y (origin this) + int (Suc (length rest))) s)),
          snd (new_Point (Point_x (origin this) + int (length row0))
                         (Point_y (origin this) + int (Suc (length rest))) s))"
  using assms by (simp add: Sprite_boundingBox_def Point_add_def split: prod.splits)

lemma Sprite_boundingBox_empty:
  "pixels this = [] \<Longrightarrow> Sprite_boundingBox this s = Inl TypeError"
  by (simp add: Sprite_boundingBox_def)

lemma set_Bounding_coords_box:
  assumes "coords opp = (Point_x orig + int w, Point_y orig + int h)"
  shows "set (Bounding_coords (BoundingRect orig opp)) = box_at orig w h"
proof -
  have "Point_x opp = Point_x orig + int w" "Point_y opp = Point_y orig + int h"
    using assms by (simp_all add: coords_def)
  then show ?thesis
    unfolding set_Bounding_coords_rect set_lodash_range box_at_def by simp
qed





text \<open>
  What \<^verbatim>\<open>getPixel\<close> does for a bitmap with a first row: outside the guard it returns
  \<^verbatim>\<open>false\<close>; inside it reads row \<open>rx\<close>, column \<open>ry\<close>, and throws when there is no row \<open>rx\<close>.
\<close>

lemma Sprite_getPixel_outside:
  assumes "pixels this = row0 # rest"
    and "a - Point_x (origin this) < 0 \<or> b - Point_y (origin this) < 0
         \<or> int (length row0) \<le> a - Point_x (origin this)
         \<or> int (Suc (length rest)) \<le> b - Point_y (origin this)"
  shows "Sprite_getPixel this a b = Inr (JBool False)"
  using assms by (auto simp: Sprite_getPixel_def Let_def)

lemma Sprite_getPixel_inside:
  assumes "pixels this = row0 # rest"
    and "0 \<le> a - Point_x (origin this)" "a - Point_x (origin this) < int (length row0)"
    and "0 \<le> b - Point_y (origin this)" "b - Point_y (origin this) < int (Suc (length rest))"
  shows "Sprite_getPixel this a b =
     (if length (pixels this) \<le> nat (a - Point_x (origin this)) then Inl TypeError
      else if length (pixels this ! nat (a - Point_x (origin this))) \<le> nat (b - Point_y (origin this))
           then Inr JUndefined
           else Inr (palette_get (palette this)
                  (pixels this ! nat (a - Point_x (origin this)) ! nat (b - Point_y (origin this)))))"
  using assms by (simp add: Sprite_getPixel_def Let_def)

subsection \<open>Layers\<close>




subsection \<open>Computations that can throw\<close>

lemma produces_errI:
  assumes "\<And>s. wf_cache s \<Longrightarrow> \<exists>ps t. f s = Inr (ps, t) \<and>
     wf_cache t \<and> extends s t \<and> map coords ps = cs \<and> (\<forall>p \<in> set ps. interned t p)"
  shows "produces_err f cs"
  unfolding produces_err_def using assms by blast

lemma produces_err_run:
  assumes "produces_err f cs" "wf_cache s"
  shows "\<exists>ps t. f s = Inr (ps, t) \<and> wf_cache t \<and> extends s t \<and> map coords ps = cs
           \<and> (\<forall>p \<in> set ps. interned t p)"
  using assms unfolding produces_err_def by blast

lemma produces_err_of_produces:
  assumes "produces f cs"
  shows "produces_err (\<lambda>s. Inr (f s)) cs"
proof (rule produces_errI)
  fix s assume wf: "wf_cache s"
  obtain ps t where r: "f s = (ps, t)" by (cases "f s")
  from producesD[OF assms wf r] r
  show "\<exists>ps t. Inr (f s) = Inr (ps, t) \<and>
     wf_cache t \<and> extends s t \<and> map coords ps = cs \<and> (\<forall>p \<in> set ps. interned t p)"
    by auto
qed

lemma produces_flatMap_err:
  assumes "\<And>v. v \<in> set vs \<Longrightarrow> produces_err (f v) (c v)"
  shows "produces_err (flatMap_err vs f) (concat (map c vs))"
  using assms
proof (induction vs)
  case Nil show ?case by (simp add: produces_err_def extends_refl)
next
  case (Cons v vs)
  have fv: "produces_err (f v) (c v)" and rest: "produces_err (flatMap_err vs f) (concat (map c vs))"
    using Cons by simp_all
  show ?case
  proof (rule produces_errI)
    fix s assume wf: "wf_cache s"
    from produces_err_run[OF fv wf] obtain r s1 where
      fr: "f v s = Inr (r, s1)" and wf1: "wf_cache s1" and e1: "extends s s1"
      and c1: "map coords r = c v" and i1: "\<forall>p \<in> set r. interned s1 p" by blast
    from produces_err_run[OF rest wf1] obtain rs s2 where
      rr: "flatMap_err vs f s1 = Inr (rs, s2)" and wf2: "wf_cache s2" and e2: "extends s1 s2"
      and c2: "map coords rs = concat (map c vs)" and i2: "\<forall>p \<in> set rs. interned s2 p"
      by blast
    have "flatMap_err (v # vs) f s = Inr (r @ rs, s2)" using fr rr by simp
    moreover have "extends s s2" using e1 e2 by (rule extends_trans)
    moreover have "map coords (r @ rs) = concat (map c (v # vs))" using c1 c2 by simp
    moreover have "\<forall>p \<in> set (r @ rs). interned s2 p"
      using i1 i2 e2 by (auto intro: interned_extends)
    ultimately show "\<exists>ps t. flatMap_err (v # vs) f s = Inr (ps, t) \<and>
       wf_cache t \<and> extends s t \<and> map coords ps = concat (map c (v # vs)) \<and>
       (\<forall>p \<in> set ps. interned t p)"
      using wf2 by blast
  qed
qed

lemma produces_flatMapUniq_err:
  assumes "\<And>v. v \<in> set vs \<Longrightarrow> produces_err (f v) (c v)"
  shows "produces_err (flatMapUniq_err vs f) (uniq (concat (map c vs)))"
proof (rule produces_errI)
  fix s assume wf: "wf_cache s"
  from produces_err_run[OF produces_flatMap_err[of vs f c, OF assms] wf] obtain rs t where
    fr: "flatMap_err vs f s = Inr (rs, t)" and wft: "wf_cache t" and e: "extends s t"
    and c: "map coords rs = concat (map c vs)" and i: "\<forall>p \<in> set rs. interned t p"
    by blast
  have "inj_on coords (set rs)" using i by (auto intro: interned_inj_on)
  then have "map coords (uniq rs) = uniq (map coords rs)" by (rule map_uniq)
  moreover have "flatMapUniq_err vs f s = Inr (uniq rs, t)"
    using fr by (simp add: flatMapUniq_err_def)
  ultimately show "\<exists>ps t. flatMapUniq_err vs f s = Inr (ps, t) \<and>
       wf_cache t \<and> extends s t \<and> map coords ps = uniq (concat (map c vs)) \<and>
       (\<forall>p \<in> set ps. interned t p)"
    using wft e c i by (auto simp: set_uniq)
qed

lemma Bounding_coords_box:
  assumes "coords opp = (a', b')"
  shows "Bounding_coords (BoundingRect orig opp) = rect_coords (Point_x orig) a' (Point_y orig) b'"
  using assms by (simp add: coords_def)

lemma produces_Sprite_changedPixels:
  assumes rows: "pixels this = row0 # rest"
  shows "produces_err (Sprite_changedPixels this) (Sprite_changed_coords this)"
proof (rule produces_errI)
  fix s assume wf: "wf_cache s"
  let ?a = "Point_x (origin this) + int (length row0)"
  let ?b = "Point_y (origin this) + int (Suc (length rest))"
  let ?opp = "fst (new_Point ?a ?b s)"
  let ?s1 = "snd (new_Point ?a ?b s)"
  let ?box = "BoundingRect (origin this) ?opp"
  have bb: "Sprite_boundingBox this s = Inr (?box, ?s1)"
    by (rule Sprite_boundingBox_rows[OF rows])
  have wf1: "wf_cache ?s1" by (rule wf_new_Point[OF wf])
  have e1: "extends s ?s1" by (rule extends_new_Point)
  have "coords ?opp = (?a, ?b)" by (rule coords_new_Point[OF wf])
  then have box: "Bounding_coords ?box =
      rect_coords (Point_x (origin this)) ?a (Point_y (origin this)) ?b"
    by (rule Bounding_coords_box)
  let ?r = "case lastBoundingBox this of None \<Rightarrow> ?box | Some lastBB \<Rightarrow> BoundingGroup [lastBB, ?box]"
  have run: "Sprite_changedPixels this s = Inr (Bounding_pixels ?r ?s1)"
    using bb by (simp add: Sprite_changedPixels_def split: option.splits)
  have cs: "Bounding_coords ?r = Sprite_changed_coords this"
    using rows box by (simp add: Sprite_changed_coords_def split: option.splits)
  note F = Bounding_pixels_facts[OF wf1, where r = ?r]
  have "Sprite_changedPixels this s = Inr (fst (Bounding_pixels ?r ?s1), snd (Bounding_pixels ?r ?s1))"
    using run by simp
  moreover have "extends s (snd (Bounding_pixels ?r ?s1))"
    using e1 F(2) by (rule extends_trans)
  moreover have "map coords (fst (Bounding_pixels ?r ?s1)) = Sprite_changed_coords this"
    using F(3) cs by simp
  ultimately show "\<exists>ps t. Sprite_changedPixels this s = Inr (ps, t) \<and>
       wf_cache t \<and> extends s t \<and> map coords ps = Sprite_changed_coords this \<and>
       (\<forall>p \<in> set ps. interned t p)"
    using F(1) F(4) by blast
qed

lemma produces_obj_changedPixels:
  assumes "has_rows d"
  shows "produces_err (obj_changedPixels d) (obj_changed_coords d)"
proof (cases d)
  case (SpriteObj sp)
  then obtain row0 rest where "pixels sp = row0 # rest" using assms by (cases "pixels sp") auto
  then have "produces_err (Sprite_changedPixels sp) (Sprite_changed_coords sp)"
    by (rule produces_Sprite_changedPixels)
  moreover have "obj_changedPixels d = Sprite_changedPixels sp"
    using SpriteObj by (intro ext) simp
  ultimately show ?thesis using SpriteObj by simp
next
  case (BackgroundObj c)
  have "obj_changedPixels d = (\<lambda>s. Inr ([], s))"
    using BackgroundObj by (intro ext) simp
  then show ?thesis using BackgroundObj by (simp add: produces_err_def extends_refl)
qed

lemma produces_Layer_changedPixels:
  assumes "\<forall>object \<in> set (objects this). obj_stale (st object) \<longrightarrow> has_rows (st object)"
  shows "produces_err (Layer_changedPixels this st)
     (uniq (concat (map (\<lambda>object. obj_changed_coords (st object))
                        (filter (\<lambda>object. obj_stale (st object)) (objects this)))))"
proof -
  have "produces_err
     (flatMapUniq_err (filter (\<lambda>object. obj_stale (st object)) (objects this))
        (\<lambda>object. obj_changedPixels (st object)))
     (uniq (concat (map (\<lambda>object. obj_changed_coords (st object))
                        (filter (\<lambda>object. obj_stale (st object)) (objects this)))))"
    by (rule produces_flatMapUniq_err) (use assms in \<open>auto intro: produces_obj_changedPixels\<close>)
  moreover have "Layer_changedPixels this st =
     flatMapUniq_err (filter (\<lambda>object. obj_stale (st object)) (objects this))
        (\<lambda>object. obj_changedPixels (st object))"
    by (rule ext) (simp add: Layer_changedPixels_def)
  ultimately show ?thesis by simp
qed




subsection \<open>Drawing two layers\<close>

lemma Sprite_getPixel_stale [simp]:
  "Sprite_getPixel (sp\<lparr>stale := f\<rparr>) a b = Sprite_getPixel sp a b"
  by (simp add: Sprite_getPixel_def Let_def split: list.splits)

lemma Sprite_getPixel_square:
  assumes "length (pixels sp) = n" "0 < n" "\<forall>row \<in> set (pixels sp). length row = n"
  shows "\<exists>v. Sprite_getPixel sp a b = Inr v"
proof -
  obtain row0 rest where rows: "pixels sp = row0 # rest"
    using assms(1,2) by (cases "pixels sp") auto
  then have "length row0 = n" using assms(3) by simp
  then show ?thesis
    using rows assms(1) by (auto simp: Sprite_getPixel_def Let_def)
qed

lemma Layer_drawPixel_background:
  assumes "st bg = BackgroundObj color"
  shows "Layer_drawPixel \<lparr>objects = [bg], blendMode = JBool False\<rparr> p (st, ctx) =
     Inr (st, ctx @ [SetGlobalCompositeOperation (JStr ''source-over''),
                     SetFillStyle (js_or color (JStr ''transparent'')),
                     FillRect (Point_x p) (Point_y p) 1 1])"
proof -
  have "st(bg := BackgroundObj color) = st" using assms by (metis fun_upd_triv)
  then show ?thesis
    using assms by (cases "truthy color")
      (simp_all add: Layer_drawPixel_def Layer_getPixel_def js_or_def Let_def)
qed

lemma stale_variant_getPixel:
  "stale_variant sp d \<Longrightarrow> obj_getPixel d a b = Sprite_getPixel sp a b"
  by (auto simp: stale_variant_def)

lemma stale_variant_set_stale:
  "stale_variant sp d \<Longrightarrow> stale_variant sp (obj_set_stale d v)"
  by (auto simp: stale_variant_def)

lemma stale_variant_self: "stale_variant sp (SpriteObj sp)"
  unfolding stale_variant_def by (rule exI[of _ "stale sp"]) simp

lemma Layer_drawPixel_sprite:
  assumes d: "stale_variant sp (st spr)"
    and v: "Sprite_getPixel sp (Point_x p) (Point_y p) = Inr v"
  shows "\<exists>d'. stale_variant sp d' \<and>
     Layer_drawPixel \<lparr>objects = [spr], blendMode = JStr ''lighter''\<rparr> p (st, ctx) =
       Inr (st(spr := d'),
            ctx @ [SetGlobalCompositeOperation (JStr ''lighter''),
                   SetFillStyle (js_or (pixel_value sp p) (JStr ''transparent'')),
                   FillRect (Point_x p) (Point_y p) 1 1])"
proof -
  have g: "obj_getPixel (st spr) (Point_x p) (Point_y p) = Inr v"
    using stale_variant_getPixel[OF d] v by simp
  have pv: "pixel_value sp p = v" using v by (simp add: pixel_value_def)
  show ?thesis
  proof (cases "truthy v")
    case True
    have "Layer_drawPixel \<lparr>objects = [spr], blendMode = JStr ''lighter''\<rparr> p (st, ctx) =
       Inr (st(spr := obj_set_stale (st spr) False),
            ctx @ [SetGlobalCompositeOperation (JStr ''lighter''),
                   SetFillStyle (js_or (pixel_value sp p) (JStr ''transparent'')),
                   FillRect (Point_x p) (Point_y p) 1 1])"
      using g True pv by (simp add: Layer_drawPixel_def Layer_getPixel_def js_or_def Let_def)
    then show ?thesis using stale_variant_set_stale[OF d] by blast
  next
    case False
    have "st(spr := st spr) = st" by simp
    moreover have "Layer_drawPixel \<lparr>objects = [spr], blendMode = JStr ''lighter''\<rparr> p (st, ctx) =
       Inr (st,
            ctx @ [SetGlobalCompositeOperation (JStr ''lighter''),
                   SetFillStyle (js_or (pixel_value sp p) (JStr ''transparent'')),
                   FillRect (Point_x p) (Point_y p) 1 1])"
      using g False pv by (simp add: Layer_drawPixel_def Layer_getPixel_def js_or_def Let_def)
    ultimately show ?thesis using d by metis
  qed
qed

lemma Canvas_drawPixel_two_layers:
  assumes ne: "bg \<noteq> spr" and b: "st bg = BackgroundObj color" and d: "stale_variant sp (st spr)"
    and v: "Sprite_getPixel sp (Point_x p) (Point_y p) = Inr v"
  shows "\<exists>d'. stale_variant sp d' \<and>
     Canvas_drawPixel (two_layers bg spr) p (st, ctx) =
       Inr (st(spr := d'), ctx @ two_layer_ops color sp p)"
proof -
  let ?ctx1 = "ctx @ [SetGlobalCompositeOperation (JStr ''source-over''),
              SetFillStyle (js_or color (JStr ''transparent'')),
              FillRect (Point_x p) (Point_y p) 1 1]"
  from Layer_drawPixel_sprite[where st = st and spr = spr and ctx = ?ctx1, OF d v]
  obtain d' where d': "stale_variant sp d'"
    and top: "Layer_drawPixel \<lparr>objects = [spr], blendMode = JStr ''lighter''\<rparr> p (st, ?ctx1) =
       Inr (st(spr := d'),
            ?ctx1 @ [SetGlobalCompositeOperation (JStr ''lighter''),
                   SetFillStyle (js_or (pixel_value sp p) (JStr ''transparent'')),
                   FillRect (Point_x p) (Point_y p) 1 1])" by blast
  have "Canvas_drawPixel (two_layers bg spr) p (st, ctx) =
     Inr (st(spr := d'), ctx @ two_layer_ops color sp p)"
    using Layer_drawPixel_background[where st = st and bg = bg and p = p and ctx = ctx, OF b] top
    by (simp add: Canvas_drawPixel_def two_layers_def two_layer_ops_def)
  with d' show ?thesis by blast
qed

lemma forEach_drawPixel_two_layers:
  assumes "bg \<noteq> spr" "st bg = BackgroundObj color" "stale_variant sp (st spr)"
    and "\<forall>p \<in> set ps. \<exists>v. Sprite_getPixel sp (Point_x p) (Point_y p) = Inr v"
  shows "\<exists>st'. forEach ps (\<lambda>pixel. Canvas_drawPixel (two_layers bg spr) pixel) (st, ctx) =
     Inr (st', ctx @ concat (map (two_layer_ops color sp) ps))"
  using assms
proof (induction ps arbitrary: st ctx)
  case Nil
  show ?case by simp
next
  case (Cons p ps)
  from Cons.prems(4) obtain v where v: "Sprite_getPixel sp (Point_x p) (Point_y p) = Inr v"
    by auto
  from Canvas_drawPixel_two_layers[where st = st and bg = bg and spr = spr and ctx = ctx, OF Cons.prems(1,2,3) v]
  obtain d' where d': "stale_variant sp d'"
    and step: "Canvas_drawPixel (two_layers bg spr) p (st, ctx) =
       Inr (st(spr := d'), ctx @ two_layer_ops color sp p)" by blast
  let ?st1 = "st(spr := d')"
  have 1: "?st1 bg = BackgroundObj color" using Cons.prems(1,2) by simp
  have 2: "stale_variant sp (?st1 spr)" using d' by simp
  have 3: "\<forall>p \<in> set ps. \<exists>v. Sprite_getPixel sp (Point_x p) (Point_y p) = Inr v"
    using Cons.prems(4) by simp
  from Cons.IH[where st = ?st1 and ctx = "ctx @ two_layer_ops color sp p", OF Cons.prems(1) 1 2 3]
  obtain st' where rest: "forEach ps (\<lambda>pixel. Canvas_drawPixel (two_layers bg spr) pixel)
        (?st1, ctx @ two_layer_ops color sp p) =
     Inr (st', (ctx @ two_layer_ops color sp p) @ concat (map (two_layer_ops color sp) ps))" ..
  have "forEach (p # ps) (\<lambda>pixel. Canvas_drawPixel (two_layers bg spr) pixel) (st, ctx) =
     Inr (st', ctx @ concat (map (two_layer_ops color sp) (p # ps)))"
    using step rest by simp
  then show ?case by blast
qed

lemma Sprite_move_rows:
  assumes "pixels this = row0 # rest"
  shows "Sprite_move this newOrigin s =
     Inr (this\<lparr>stale := True,
               lastBoundingBox := Some (BoundingRect (origin this)
                 (fst (new_Point (Point_x (origin this) + int (length row0))
                                 (Point_y (origin this) + int (Suc (length rest))) s))),
               origin := newOrigin\<rparr>,
          snd (new_Point (Point_x (origin this) + int (length row0))
                         (Point_y (origin this) + int (Suc (length rest))) s))"
proof -
  have "pixels (this\<lparr>stale := True\<rparr>) = row0 # rest" using assms by simp
  from Sprite_boundingBox_rows[OF this, of s] show ?thesis
    by (simp add: Sprite_move_def Sprite_set_origin_def Let_def)
qed

lemma set_rect_coords_box:
  "set (rect_coords (Point_x orig) (Point_x orig + int w) (Point_y orig) (Point_y orig + int h))
     = box_at orig w h"
  by (simp add: rect_coords_product set_lodash_range box_at_def)

lemma set_Sprite_changed_coords_moved:
  assumes rows: "pixels this = row0 # rest"
    and opp: "coords opp = (Point_x (origin this) + int (length row0),
                            Point_y (origin this) + int (Suc (length rest)))"
  shows "set (Sprite_changed_coords
                (this\<lparr>stale := True, lastBoundingBox := Some (BoundingRect (origin this) opp),
                      origin := newOrigin\<rparr>))
         = box_at (origin this) (length row0) (Suc (length rest))
           \<union> box_at newOrigin (length row0) (Suc (length rest))"
proof -
  have "set (Bounding_coords (BoundingRect (origin this) opp)) =
      box_at (origin this) (length row0) (Suc (length rest))"
    using opp by (rule set_Bounding_coords_box)
  moreover have "set (rect_coords (Point_x newOrigin) (Point_x newOrigin + int (length row0))
                 (Point_y newOrigin) (Point_y newOrigin + int (Suc (length rest))))
     = box_at newOrigin (length row0) (Suc (length rest))"
    by (rule set_rect_coords_box)
  ultimately show ?thesis
    using rows by (simp add: Sprite_changed_coords_def set_uniq del: Bounding_coords.simps)
qed

lemma produces_Canvas_changedPixels:
  assumes "\<forall>layer \<in> set (layers this). \<forall>object \<in> set (objects layer).
             obj_stale (st object) \<longrightarrow> has_rows (st object)"
  shows "produces_err (Canvas_changedPixels this st)
     (uniq (concat (map (\<lambda>layer.
        uniq (concat (map (\<lambda>object. obj_changed_coords (st object))
                          (filter (\<lambda>object. obj_stale (st object)) (objects layer)))))
        (layers this))))"
proof -
  have "produces_err
     (flatMapUniq_err (layers this) (\<lambda>layer. Layer_changedPixels layer st))
     (uniq (concat (map (\<lambda>layer.
        uniq (concat (map (\<lambda>object. obj_changed_coords (st object))
                          (filter (\<lambda>object. obj_stale (st object)) (objects layer)))))
        (layers this))))"
    by (rule produces_flatMapUniq_err) (use assms in \<open>auto intro: produces_Layer_changedPixels\<close>)
  moreover have "Canvas_changedPixels this st =
      flatMapUniq_err (layers this) (\<lambda>layer. Layer_changedPixels layer st)"
    by (rule ext) (simp add: Canvas_changedPixels_def)
  ultimately show ?thesis by simp
qed

lemma Canvas_draw_two_layers:
  assumes wf: "wf_cache s"
    and rows: "length (pixels sp) = n" "0 < n"
    and cols: "\<forall>row \<in> set (pixels sp). length row = n"
    and mv: "Sprite_move sp newOrigin s = Inr (moved, s1)"
    and ne: "bg \<noteq> spr" and b: "st bg = BackgroundObj color" and d: "st spr = SpriteObj moved"
  shows "\<exists>st' t ps. Canvas_draw (two_layers bg spr) st s1 ctx =
            Inr (st', t, ctx @ concat (map (two_layer_ops color moved) ps))
        \<and> distinct (map coords ps)
        \<and> coords ` set ps = box_at (origin sp) n n \<union> box_at newOrigin n n"
proof -
  obtain row0 rest where bm: "pixels sp = row0 # rest"
    using rows by (cases "pixels sp") auto
  have dims: "length row0 = n" "Suc (length rest) = n" using bm rows cols by auto
  let ?a = "Point_x (origin sp) + int (length row0)"
  let ?b = "Point_y (origin sp) + int (Suc (length rest))"
  let ?opp = "fst (new_Point ?a ?b s)"
  have moved: "moved = sp\<lparr>stale := True, lastBoundingBox := Some (BoundingRect (origin sp) ?opp),
                          origin := newOrigin\<rparr>"
    and s1: "s1 = snd (new_Point ?a ?b s)"
    using mv Sprite_move_rows[OF bm, of newOrigin s] by simp_all
  have wf1: "wf_cache s1" unfolding s1 by (rule wf_new_Point[OF wf])
  have "coords ?opp = (?a, ?b)" by (rule coords_new_Point[OF wf])
  from set_Sprite_changed_coords_moved[OF bm this, of newOrigin]
  have cover: "set (Sprite_changed_coords moved) = box_at (origin sp) n n \<union> box_at newOrigin n n"
    unfolding moved dims .
  have pm: "pixels moved = pixels sp" and sm: "stale moved" unfolding moved by simp_all
  have ok: "\<forall>layer \<in> set (layers (two_layers bg spr)). \<forall>object \<in> set (objects layer).
             obj_stale (st object) \<longrightarrow> has_rows (st object)"
    using b d pm bm by (simp add: two_layers_def)
  let ?cs = "uniq (concat (map (\<lambda>layer.
        uniq (concat (map (\<lambda>object. obj_changed_coords (st object))
                          (filter (\<lambda>object. obj_stale (st object)) (objects layer)))))
        (layers (two_layers bg spr))))"
  have cs: "set ?cs = set (Sprite_changed_coords moved)"
    using b d sm by (simp add: two_layers_def set_uniq)
  from produces_err_run[OF produces_Canvas_changedPixels[OF ok] wf1]
  obtain ps t where run: "Canvas_changedPixels (two_layers bg spr) st s1 = Inr (ps, t)"
    and c: "map coords ps = ?cs" by blast
  have img: "coords ` set ps = box_at (origin sp) n n \<union> box_at newOrigin n n"
    using c cs cover by (metis set_map)
  have dist: "distinct (map coords ps)" unfolding c by (rule distinct_uniq)
  have sq: "\<exists>v. Sprite_getPixel moved a b' = Inr v" for a b'
    by (rule Sprite_getPixel_square[of moved n]) (use pm rows cols in simp_all)
  have var: "stale_variant moved (st spr)" unfolding d by (rule stale_variant_self)
  from forEach_drawPixel_two_layers[where st = st and bg = bg and spr = spr and sp = moved
      and ps = ps and ctx = ctx, OF ne b var] sq
  obtain st' where loop: "forEach ps (\<lambda>pixel. Canvas_drawPixel (two_layers bg spr) pixel) (st, ctx) =
     Inr (st', ctx @ concat (map (two_layer_ops color moved) ps))" by blast
  have "Canvas_draw (two_layers bg spr) st s1 ctx =
            Inr (st', t, ctx @ concat (map (two_layer_ops color moved) ps))"
    using run loop by (simp add: Canvas_draw_def)
  with dist img show ?thesis by blast
qed

lemma FillRect_two_layer_ops_one:
  "FillRect a b w h \<in> set (two_layer_ops color sp p) \<Longrightarrow>
     a = Point_x p \<and> b = Point_y p \<and> w = 1 \<and> h = 1"
  by (simp add: two_layer_ops_def)

lemma FillRect_two_layer_ops:
  assumes "FillRect a b w h \<in> set (concat (map (two_layer_ops color sp) ps))"
  shows "(a, b) \<in> coords ` set ps \<and> w = 1 \<and> h = 1"
proof -
  from assms obtain p where p: "p \<in> set ps"
    and "FillRect a b w h \<in> set (two_layer_ops color sp p)" by auto
  then have "a = Point_x p \<and> b = Point_y p \<and> w = 1 \<and> h = 1"
    by (intro FillRect_two_layer_ops_one)
  moreover have "coords p \<in> coords ` set ps" using p by (rule imageI)
  ultimately show ?thesis by (simp add: coords_def)
qed

lemma count_lighter_two_layer_ops:
  "count_list (concat (map (two_layer_ops color sp) ps))
     (SetGlobalCompositeOperation (JStr ''lighter'')) = length ps"
  by (induction ps) (simp_all add: two_layer_ops_def)

lemma card_two_boxes:
  "card (box_at \<lparr>ident = 0, Point_x = 95, Point_y = 95\<rparr> 10 10
         \<union> box_at \<lparr>ident = 1, Point_x = 96, Point_y = 96\<rparr> 10 10) = 119"
proof -
  let ?A = "{95..<105::int} \<times> {95..<105::int}"
  let ?B = "{96..<106::int} \<times> {96..<106::int}"
  have i: "?A \<inter> ?B = {96..<105} \<times> {96..<105}" by auto
  have "card ?A + card ?B = card (?A \<union> ?B) + card (?A \<inter> ?B)"
    by (rule card_Un_Int) simp_all
  then have "card (?A \<union> ?B) = 119"
    unfolding i by (simp add: card_cartesian_product)
  then show ?thesis by (simp add: box_at_def)
qed

section \<open>The claims about Points and regions\<close>

text \<open>
  Claim C6. Constructing a Point twice with the same coordinates yields the identical
  instance: whatever was constructed before the first call and between the two calls, the
  second \<^verbatim>\<open>new Point(a, b)\<close> returns the object the first one returned, and that object
  has the coordinates \<open>(a, b)\<close>.
\<close>

theorem Point_interning:
  "fst (new_Point a b (construct_all between (snd (new_Point a b (construct_all before Point_class0)))))
     = fst (new_Point a b (construct_all before Point_class0))
   \<and> coords (fst (new_Point a b (construct_all before Point_class0))) = (a, b)"
proof -
  let ?s0 = "construct_all before Point_class0"
  let ?p = "fst (new_Point a b ?s0)"
  let ?s1 = "snd (new_Point a b ?s0)"
  have "lookup ?s1 a b = Some ?p" by (simp add: lookup_new_Point)
  then have "lookup (construct_all between ?s1) a b = Some ?p" by (rule lookup_construct_all)
  then have "fst (new_Point a b (construct_all between ?s1)) = ?p" by (simp add: fst_new_Point)
  moreover have "wf_cache ?s0" by (rule wf_construct_all[OF wf_cache0])
  then have "coords ?p = (a, b)" by (rule coords_new_Point)
  ultimately show ?thesis by simp
qed

text \<open>
  Claim C4, as the code has it. From a well-formed cache, \<^verbatim>\<open>pixels()\<close> of a Rect returns
  interned Points, no coordinate twice, whose coordinates are exactly the product of the
  two ranges: on each axis the integers from the origin (inclusive) to the opposite corner
  (exclusive), counted upwards when the origin is not larger and downwards otherwise. The
  result is empty exactly when the two corners agree on an axis.
\<close>

theorem BoundingRect_pixels:
  assumes wf: "wf_cache s"
  shows "coords ` set (fst (Bounding_pixels (BoundingRect orig opp) s)) =
           (if Point_x orig \<le> Point_x opp then {Point_x orig..<Point_x opp}
            else {Point_x opp<..Point_x orig}) \<times>
           (if Point_y orig \<le> Point_y opp then {Point_y orig..<Point_y opp}
            else {Point_y opp<..Point_y orig})
       \<and> distinct (map coords (fst (Bounding_pixels (BoundingRect orig opp) s)))
       \<and> list_all (interned (snd (Bounding_pixels (BoundingRect orig opp) s)))
            (fst (Bounding_pixels (BoundingRect orig opp) s))
       \<and> (fst (Bounding_pixels (BoundingRect orig opp) s) = []
            \<longleftrightarrow> Point_x orig = Point_x opp \<or> Point_y orig = Point_y opp)"
proof -
  let ?r = "BoundingRect orig opp"
  note F = Bounding_pixels_facts[OF wf, where r = "?r"]
  have img: "coords ` set (fst (Bounding_pixels ?r s)) = set (Bounding_coords ?r)"
    using F(3) by (metis set_map)
  have 1: "coords ` set (fst (Bounding_pixels ?r s)) =
           (if Point_x orig \<le> Point_x opp then {Point_x orig..<Point_x opp}
            else {Point_x opp<..Point_x orig}) \<times>
           (if Point_y orig \<le> Point_y opp then {Point_y orig..<Point_y opp}
            else {Point_y opp<..Point_y orig})"
    unfolding img set_Bounding_coords_rect set_lodash_range ..
  have 2: "distinct (map coords (fst (Bounding_pixels ?r s)))"
    using F(3) distinct_Bounding_coords[of ?r] by simp
  have 3: "list_all (interned (snd (Bounding_pixels ?r s))) (fst (Bounding_pixels ?r s))"
    using F(4) by (simp add: list_all_iff)
  have "fst (Bounding_pixels ?r s) = [] \<longleftrightarrow> coords ` set (fst (Bounding_pixels ?r s)) = {}"
    by simp
  also have "\<dots> \<longleftrightarrow> Point_x orig = Point_x opp \<or> Point_y orig = Point_y opp"
    unfolding 1 by (auto simp: Times_eq_cancel2)
  finally have 4: "fst (Bounding_pixels ?r s) = []
            \<longleftrightarrow> Point_x orig = Point_x opp \<or> Point_y orig = Point_y opp" .
  from 1 2 3 4 show ?thesis by blast
qed

text \<open>
  The instances of the specification: \<^verbatim>\<open>Rect((0,0),(2,2))\<close> has exactly the four pixels
  (0,0), (0,1), (1,0), (1,1), and \<^verbatim>\<open>Rect((5,5),(5,5))\<close> has none.
\<close>

theorem BoundingRect_pixels_witness:
  "wf_cache (construct_all [(0, 0), (2, 2), (5, 5)] Point_class0)
   \<and> coords ` set (fst (Bounding_pixels
         (BoundingRect \<lparr>ident = 0, Point_x = 0, Point_y = 0\<rparr> \<lparr>ident = 1, Point_x = 2, Point_y = 2\<rparr>)
         (construct_all [(0, 0), (2, 2), (5, 5)] Point_class0)))
       = {(0, 0), (0, 1), (1, 0), (1, 1)}
   \<and> fst (Bounding_pixels
         (BoundingRect \<lparr>ident = 2, Point_x = 5, Point_y = 5\<rparr> \<lparr>ident = 2, Point_x = 5, Point_y = 5\<rparr>)
         (construct_all [(0, 0), (2, 2), (5, 5)] Point_class0)) = []"
proof -
  let ?s = "construct_all [(0, 0), (2, 2), (5, 5)] Point_class0"
  have wf: "wf_cache ?s" by (rule wf_construct_all[OF wf_cache0])
  have sq: "{0..<2::int} \<times> {0..<2::int} = {(0, 0), (0, 1), (1, 0), (1, 1)}" by auto
  from BoundingRect_pixels[OF wf, of "\<lparr>ident = 0, Point_x = 0, Point_y = 0\<rparr>"
      "\<lparr>ident = 1, Point_x = 2, Point_y = 2\<rparr>"]
    BoundingRect_pixels[OF wf, of "\<lparr>ident = 2, Point_x = 5, Point_y = 5\<rparr>"
      "\<lparr>ident = 2, Point_x = 5, Point_y = 5\<rparr>"]
  show ?thesis using wf sq by simp
qed

text \<open>
  A Rect whose origin lies to the right of its opposite corner is not empty:
  \<^verbatim>\<open>Rect((2,0),(0,1))\<close> has the pixels (2,0) and (1,0), because \<^verbatim>\<open>range(2, 0)\<close> is
  \<^verbatim>\<open>[2, 1]\<close>.
\<close>

theorem BoundingRect_pixels_reversed:
  "Point_x \<lparr>ident = 0, Point_x = 2, Point_y = 0\<rparr> \<ge> Point_x \<lparr>ident = 1, Point_x = 0, Point_y = 1\<rparr>
   \<and> fst (Bounding_pixels
         (BoundingRect \<lparr>ident = 0, Point_x = 2, Point_y = 0\<rparr> \<lparr>ident = 1, Point_x = 0, Point_y = 1\<rparr>)
         (construct_all [(2, 0), (0, 1)] Point_class0))
       = [\<lparr>ident = 0, Point_x = 2, Point_y = 0\<rparr>, \<lparr>ident = 3, Point_x = 1, Point_y = 0\<rparr>]"
  by code_simp

text \<open>
  Claim C5. From a well-formed cache, \<^verbatim>\<open>pixels()\<close> of a Group returns no object and no
  coordinate twice; its Points are exactly the Points its children return (asked in the
  state the call leaves), and its coordinates are the union of the children's coordinates.
  A Group of the same region twice has as many pixels as the region alone.
\<close>

theorem BoundingGroup_pixels:
  assumes wf: "wf_cache s"
  shows "distinct (fst (Bounding_pixels (BoundingGroup children) s))
       \<and> distinct (map coords (fst (Bounding_pixels (BoundingGroup children) s)))
       \<and> set (fst (Bounding_pixels (BoundingGroup children) s)) =
           (\<Union>child \<in> set children.
              set (fst (Bounding_pixels child (snd (Bounding_pixels (BoundingGroup children) s)))))
       \<and> coords ` set (fst (Bounding_pixels (BoundingGroup children) s)) =
           (\<Union>child \<in> set children. coords ` set (fst (Bounding_pixels child s)))
       \<and> length (fst (Bounding_pixels (BoundingGroup [r, r]) s)) =
           length (fst (Bounding_pixels r s))"
proof -
  let ?g = "BoundingGroup children"
  let ?ps = "fst (Bounding_pixels ?g s)"
  let ?t = "snd (Bounding_pixels ?g s)"
  note G = Bounding_pixels_facts[OF wf, where r = "?g"]
  have gc: "set (Bounding_coords ?g) = (\<Union>child \<in> set children. set (Bounding_coords child))"
    by (simp add: set_uniq set_children_coords)
  have img: "coords ` set ?ps = set (Bounding_coords ?g)"
    using G(3) by (metis set_map)
  have 1: "distinct ?ps" by (rule distinct_Bounding_pixels[OF wf])
  have 2: "distinct (map coords ?ps)"
    using G(3) distinct_Bounding_coords[of ?g] by simp
  have int: "\<forall>p \<in> set ?ps. interned ?t p" using G(4) by simp
  have 3: "set ?ps = (\<Union>child \<in> set children. set (fst (Bounding_pixels child ?t)))"
  proof (rule equalityI; rule subsetI)
    fix p assume p: "p \<in> set ?ps"
    then have "coords p \<in> set (Bounding_coords ?g)" using img by auto
    then obtain child where c: "child \<in> set children" and pc: "coords p \<in> set (Bounding_coords child)"
      using gc by auto
    have "set [p] \<subseteq> set (fst (Bounding_pixels child ?t))"
      by (rule Bounding_pixels_superset_interned[OF G(1)]) (use int p pc in auto)
    then show "p \<in> (\<Union>child \<in> set children. set (fst (Bounding_pixels child ?t)))"
      using c by auto
  next
    fix q assume "q \<in> (\<Union>child \<in> set children. set (fst (Bounding_pixels child ?t)))"
    then obtain child where c: "child \<in> set children"
      and q: "q \<in> set (fst (Bounding_pixels child ?t))" by auto
    have "set (Bounding_coords child) \<subseteq> coords ` set ?ps"
      using c img gc by auto
    from Bounding_pixels_subset_interned[OF G(1) int this] q show "q \<in> set ?ps" by auto
  qed
  have 4: "coords ` set ?ps = (\<Union>child \<in> set children. coords ` set (fst (Bounding_pixels child s)))"
  proof -
    have "\<And>child. coords ` set (fst (Bounding_pixels child s)) = set (Bounding_coords child)"
      using Bounding_pixels_facts(3)[OF wf] by (metis set_map)
    then show ?thesis using img gc by simp
  qed
  have "length (fst (Bounding_pixels (BoundingGroup [r, r]) s)) =
        length (map coords (fst (Bounding_pixels (BoundingGroup [r, r]) s)))" by simp
  also have "\<dots> = length (uniq (Bounding_coords r @ Bounding_coords r))"
    by (simp only: Bounding_pixels_facts(3)[OF wf]) simp
  also have "\<dots> = length (Bounding_coords r)"
    by (simp add: uniq_twice uniq_distinct distinct_Bounding_coords)
  also have "\<dots> = length (fst (Bounding_pixels r s))"
    using Bounding_pixels_facts(3)[OF wf, where r = "r"] by (metis length_map)
  finally have 5: "length (fst (Bounding_pixels (BoundingGroup [r, r]) s)) =
           length (fst (Bounding_pixels r s))" .
  from 1 2 3 4 5 show ?thesis by blast
qed

theorem BoundingGroup_pixels_witness:
  "wf_cache (construct_all [(0, 0), (2, 2)] Point_class0)
   \<and> length (fst (Bounding_pixels
        (BoundingGroup
          [BoundingRect \<lparr>ident = 0, Point_x = 0, Point_y = 0\<rparr> \<lparr>ident = 1, Point_x = 2, Point_y = 2\<rparr>,
           BoundingRect \<lparr>ident = 0, Point_x = 0, Point_y = 0\<rparr> \<lparr>ident = 1, Point_x = 2, Point_y = 2\<rparr>])
        (construct_all [(0, 0), (2, 2)] Point_class0))) = 4
   \<and> distinct (map coords (fst (Bounding_pixels
        (BoundingGroup
          [BoundingRect \<lparr>ident = 0, Point_x = 0, Point_y = 0\<rparr> \<lparr>ident = 1, Point_x = 2, Point_y = 2\<rparr>,
           BoundingRect \<lparr>ident = 0, Point_x = 0, Point_y = 0\<rparr> \<lparr>ident = 1, Point_x = 2, Point_y = 2\<rparr>])
        (construct_all [(0, 0), (2, 2)] Point_class0))))"
proof -
  let ?s = "construct_all [(0, 0), (2, 2)] Point_class0"
  let ?r = "BoundingRect \<lparr>ident = 0, Point_x = 0, Point_y = 0\<rparr> \<lparr>ident = 1, Point_x = 2, Point_y = 2\<rparr>"
  have wf: "wf_cache ?s" by (rule wf_construct_all[OF wf_cache0])
  have four: "length (fst (Bounding_pixels ?r ?s)) = 4" by code_simp
  from BoundingGroup_pixels[OF wf, of "[?r, ?r]" ?r]
  show ?thesis using wf four by simp
qed

section \<open>The claims about Sprites\<close>







text \<open>
  Claim C7, evaluated on the code. The guard of \<^verbatim>\<open>getPixel\<close> takes \<^verbatim>\<open>rx\<close> for a column and
  \<^verbatim>\<open>ry\<close> for a row, but the lookup \<^verbatim>\<open>this.pixels[rx][ry]\<close> reads row \<^verbatim>\<open>rx\<close>, column \<^verbatim>\<open>ry\<close>.
  With the bitmap \<^verbatim>\<open>[[0,1],[0,0]]\<close> at origin (0,0) the query (1,0) returns the palette
  entry of cell row 1, column 0 (index 0), not that of row 0, column 1 (index 1), which the
  query (0,1) returns instead; with the 1 by 2 bitmap \<^verbatim>\<open>[[0,1]]\<close> the query (1,0), which is
  inside the bitmap, throws.
\<close>

theorem Sprite_getPixel_transposed:
  "Sprite_getPixel
     (new_Sprite \<lparr>ident = 0, Point_x = 0, Point_y = 0\<rparr>
        [0 \<mapsto> JStr ''#000'', 1 \<mapsto> JStr ''#FF0000''] [[0, 1], [0, 0]]) 1 0
     = Inr (JStr ''#000'')
   \<and> Sprite_getPixel
     (new_Sprite \<lparr>ident = 0, Point_x = 0, Point_y = 0\<rparr>
        [0 \<mapsto> JStr ''#000'', 1 \<mapsto> JStr ''#FF0000''] [[0, 1], [0, 0]]) 0 1
     = Inr (JStr ''#FF0000'')
   \<and> Sprite_getPixel
     (new_Sprite \<lparr>ident = 0, Point_x = 0, Point_y = 0\<rparr>
        [0 \<mapsto> JStr ''#000'', 1 \<mapsto> JStr ''#FF0000''] [[0, 1]]) 1 0
     = Inl TypeError"
  by (simp add: Sprite_getPixel_def new_Sprite_def palette_get_def)

text \<open>
  Claim C8, evaluated on the code. For a Sprite whose bitmap has no row, the getter
  \<^verbatim>\<open>boundingBox\<close> throws (\<^verbatim>\<open>this.pixels[0]\<close> is \<^verbatim>\<open>undefined\<close>), and so do \<^verbatim>\<open>changedPixels\<close>
  and \<^verbatim>\<open>move\<close>; \<^verbatim>\<open>getPixel\<close> throws for every coordinate that is not to the left of or
  above the origin.
\<close>

theorem Sprite_empty_bitmap_faults:
  "Sprite_boundingBox (new_Sprite orig pal []) s = Inl TypeError
   \<and> Sprite_changedPixels (new_Sprite orig pal []) s = Inl TypeError
   \<and> Sprite_move (new_Sprite orig pal []) newOrigin s = Inl TypeError
   \<and> Sprite_getPixel (new_Sprite orig pal []) a b =
       (if a < Point_x orig \<or> b < Point_y orig then Inr (JBool False) else Inl TypeError)"
  by (simp add: Sprite_boundingBox_def Sprite_changedPixels_def Sprite_move_def
      Sprite_set_origin_def Sprite_getPixel_def new_Sprite_def)

section \<open>The claims about Layers and the Canvas\<close>







text \<open>
  Claim C10, as the code has it. A canvas has a background layer under a layer with the
  blend mode \<^verbatim>\<open>'lighter'\<close> that holds one Sprite with a 10 by 10 bitmap, and the Sprite has
  just been moved. Then \<^verbatim>\<open>draw()\<close> returns, and the operations on the context are, for each
  changed pixel in turn, those of \<open>two_layer_ops\<close>: blend mode, fill style and a 1 by 1
  \<^verbatim>\<open>fillRect\<close> for the background layer, then the same three for the top layer. The changed
  pixels are exactly those of the old and the new 10 by 10 rectangle, each once, so every
  \<^verbatim>\<open>fillRect\<close> lies in their union; and the blend mode \<^verbatim>\<open>'lighter'\<close> is assigned once for
  every changed pixel, directly before the top layer's fill of that pixel.
\<close>

theorem Canvas_draw_after_move:
  assumes wf: "wf_cache s"
    and rows: "length (pixels sp) = 10"
    and cols: "\<forall>row \<in> set (pixels sp). length row = 10"
    and mv: "Sprite_move sp newOrigin s = Inr (moved, s1)"
    and ne: "bg \<noteq> spr" and b: "st bg = BackgroundObj color" and d: "st spr = SpriteObj moved"
  shows "\<exists>st' t ctx ps. Canvas_draw (two_layers bg spr) st s1 [] = Inr (st', t, ctx)
        \<and> ctx = concat (map (two_layer_ops color moved) ps)
        \<and> distinct (map coords ps)
        \<and> coords ` set ps = box_at (origin sp) 10 10 \<union> box_at newOrigin 10 10
        \<and> (\<forall>a b w h. FillRect a b w h \<in> set ctx \<longrightarrow>
              (a, b) \<in> box_at (origin sp) 10 10 \<union> box_at newOrigin 10 10 \<and> w = 1 \<and> h = 1)
        \<and> count_list ctx (SetGlobalCompositeOperation (JStr ''lighter'')) = length ps"
proof -
  have pos: "0 < (10 :: nat)" by simp
  from Canvas_draw_two_layers[where st = st and bg = bg and spr = spr and ctx = "[]",
      OF wf rows pos cols mv ne b d]
  obtain st' t ps where
    run: "Canvas_draw (two_layers bg spr) st s1 [] =
            Inr (st', t, [] @ concat (map (two_layer_ops color moved) ps))"
    and dist: "distinct (map coords ps)"
    and img: "coords ` set ps = box_at (origin sp) 10 10 \<union> box_at newOrigin 10 10"
    by blast
  let ?ctx = "concat (map (two_layer_ops color moved) ps)"
  have 1: "Canvas_draw (two_layers bg spr) st s1 [] = Inr (st', t, ?ctx)" using run by simp
  have 2: "\<forall>a b w h. FillRect a b w h \<in> set ?ctx \<longrightarrow>
              (a, b) \<in> box_at (origin sp) 10 10 \<union> box_at newOrigin 10 10 \<and> w = 1 \<and> h = 1"
    using FillRect_two_layer_ops[of _ _ _ _ color moved ps] unfolding img by blast
  have 3: "count_list ?ctx (SetGlobalCompositeOperation (JStr ''lighter'')) = length ps"
    by (rule count_lighter_two_layer_ops)
  from 1 dist img 2 3 show ?thesis by blast
qed

text \<open>
  The scene of the example, moved by one pixel along the diagonal from (95,95) to (96,96).
\<close>

theorem Canvas_draw_after_move_witness:
  "wf_cache circle_state
   \<and> length (pixels circle_sprite) = 10
   \<and> list_all (\<lambda>row. length row = 10) (pixels circle_sprite)
   \<and> (\<exists>moved s1 st' t ctx ps.
         Sprite_move circle_sprite \<lparr>ident = 1, Point_x = 96, Point_y = 96\<rparr> circle_state
           = Inr (moved, s1)
       \<and> Canvas_draw (two_layers 0 1) (circle_store moved) s1 [] = Inr (st', t, ctx)
       \<and> ctx = concat (map (two_layer_ops (JStr ''#000'') moved) ps)
       \<and> coords ` set ps = {95..<105} \<times> {95..<105} \<union> {96..<106} \<times> {96..<106}
       \<and> count_list ctx (SetGlobalCompositeOperation (JStr ''lighter'')) = length ps)"
proof -
  let ?q = "\<lparr>ident = 1, Point_x = 96, Point_y = 96\<rparr>"
  have wf: "wf_cache circle_state"
    unfolding circle_state_def by (rule wf_construct_all[OF wf_cache0])
  have rows: "length (pixels circle_sprite) = 10"
    and cols: "\<forall>row \<in> set (pixels circle_sprite). length row = 10"
    by (simp_all add: circle_sprite_def new_Sprite_def Circle_pixels_def)
  have la: "list_all (\<lambda>row. length row = 10) (pixels circle_sprite)"
    using cols by (simp add: list_all_iff)
  have "\<exists>row0 rest. pixels circle_sprite = row0 # rest"
    by (simp add: circle_sprite_def new_Sprite_def Circle_pixels_def)
  then obtain row0 rest where bm: "pixels circle_sprite = row0 # rest" by blast
  from Sprite_move_rows[OF bm, of ?q circle_state]
  obtain moved s1 where mv: "Sprite_move circle_sprite ?q circle_state = Inr (moved, s1)"
    by blast
  have o: "origin circle_sprite = \<lparr>ident = 0, Point_x = 95, Point_y = 95\<rparr>"
    by (simp add: circle_sprite_def new_Sprite_def)
  have ne: "(0 :: nat) \<noteq> 1" by simp
  have b: "circle_store moved 0 = BackgroundObj (JStr ''#000'')"
    and d: "circle_store moved 1 = SpriteObj moved"
    by (simp_all add: circle_store_def)
  from Canvas_draw_after_move[where st = "circle_store moved" and bg = 0 and spr = 1,
      OF wf rows cols mv ne b d]
  obtain st' t ctx ps where
    run: "Canvas_draw (two_layers 0 1) (circle_store moved) s1 [] = Inr (st', t, ctx)"
    and ctx: "ctx = concat (map (two_layer_ops (JStr ''#000'') moved) ps)"
    and img: "coords ` set ps = box_at (origin circle_sprite) 10 10 \<union> box_at ?q 10 10"
    and cnt: "count_list ctx (SetGlobalCompositeOperation (JStr ''lighter'')) = length ps"
    by blast
  have img': "coords ` set ps = {95..<105} \<times> {95..<105} \<union> {96..<106} \<times> {96..<106}"
    using img by (simp add: o box_at_def)
  from wf rows la mv run ctx img' cnt show ?thesis by blast
qed

text \<open>
  In that scene one \<^verbatim>\<open>draw()\<close> assigns the blend mode \<^verbatim>\<open>'lighter'\<close> 119 times, once for each
  pixel of the union of the two rectangles (100 + 100 - 81), not once.
\<close>

theorem Canvas_draw_sets_lighter_per_pixel:
  "(case Sprite_move circle_sprite \<lparr>ident = 1, Point_x = 96, Point_y = 96\<rparr> circle_state of
      Inl e \<Rightarrow> None
    | Inr (moved, s1) \<Rightarrow>
        (case Canvas_draw (two_layers 0 1) (circle_store moved) s1 [] of
           Inl e \<Rightarrow> None
         | Inr (st', t, ctx) \<Rightarrow>
             Some (count_list ctx (SetGlobalCompositeOperation (JStr ''lighter'')))))
   = Some 119"
proof -
  let ?q = "\<lparr>ident = 1, Point_x = 96, Point_y = 96\<rparr>"
  have wf: "wf_cache circle_state"
    unfolding circle_state_def by (rule wf_construct_all[OF wf_cache0])
  have rows: "length (pixels circle_sprite) = 10" "0 < (10 :: nat)"
    and cols: "\<forall>row \<in> set (pixels circle_sprite). length row = 10"
    by (simp_all add: circle_sprite_def new_Sprite_def Circle_pixels_def)
  have "\<exists>row0 rest. pixels circle_sprite = row0 # rest"
    by (simp add: circle_sprite_def new_Sprite_def Circle_pixels_def)
  then obtain row0 rest where bm: "pixels circle_sprite = row0 # rest" by blast
  from Sprite_move_rows[OF bm, of ?q circle_state]
  obtain moved s1 where mv: "Sprite_move circle_sprite ?q circle_state = Inr (moved, s1)"
    by blast
  have o: "origin circle_sprite = \<lparr>ident = 0, Point_x = 95, Point_y = 95\<rparr>"
    by (simp add: circle_sprite_def new_Sprite_def)
  have ne: "(0 :: nat) \<noteq> 1" by simp
  have b: "circle_store moved 0 = BackgroundObj (JStr ''#000'')"
    and d: "circle_store moved 1 = SpriteObj moved"
    by (simp_all add: circle_store_def)
  from Canvas_draw_two_layers[where st = "circle_store moved" and bg = 0 and spr = 1
      and ctx = "[]", OF wf rows cols mv ne b d]
  obtain st' t ps where
    run: "Canvas_draw (two_layers 0 1) (circle_store moved) s1 [] =
            Inr (st', t, [] @ concat (map (two_layer_ops (JStr ''#000'') moved) ps))"
    and dist: "distinct (map coords ps)"
    and img: "coords ` set ps = box_at (origin circle_sprite) 10 10 \<union> box_at ?q 10 10"
    by blast
  have "length ps = card (set (map coords ps))"
    using dist by (metis distinct_card length_map)
  also have "\<dots> = 119" using img card_two_boxes by (simp add: o)
  finally have "count_list (concat (map (two_layer_ops (JStr ''#000'') moved) ps))
      (SetGlobalCompositeOperation (JStr ''lighter'')) = 119"
    by (simp add: count_lighter_two_layer_ops)
  then show ?thesis using mv run by simp
qed

end
